theory Spec2Isabelle
  imports Complex_Main
begin

section \<open>Python values and errors\<close>

text \<open>
  The environment of \<^verbatim>\<open>src/envs/ast_env.py\<close> keeps the engine's record in a
  \<^verbatim>\<open>ctypes.Structure\<close> and hands numpy arrays to the learner. Every exception the
  interpreter can raise on the modelled paths is a value of \<open>error\<close>; a function that can
  raise returns \<open>error + 'a\<close>.
\<close>

datatype error =
  IndexError | ValueError | TypeError | AttributeError | AssertionError | OSError
| OverflowError | MemoryError

definition and_then :: "error + 'a \<Rightarrow> ('a \<Rightarrow> error + 'b) \<Rightarrow> error + 'b" where
  "and_then r f = (case r of Inl e \<Rightarrow> Inl e | Inr x \<Rightarrow> f x)"

text \<open>
  \<^verbatim>\<open>for i in range(lo, hi): body\<close>. The range is computed once, before the first
  iteration; an exception in the body leaves the loop.
\<close>

definition range_py :: "int \<Rightarrow> int \<Rightarrow> int list" where
  "range_py lo hi = [lo..hi - 1]"

fun for_in :: "int list \<Rightarrow> (int \<Rightarrow> 's \<Rightarrow> error + 's) \<Rightarrow> 's \<Rightarrow> error + 's" where
  "for_in [] body s = Inr s"
| "for_in (i # is) body s = and_then (body i s) (for_in is body)"

text \<open>
  \<^verbatim>\<open>for i in range(lo, hi): if test: update; break\<close>. An exception in the test
  leaves the loop; when the test never holds the loop runs to its end and nothing is
  updated.
\<close>

fun for_break ::
  "int list \<Rightarrow> (int \<Rightarrow> 's \<Rightarrow> error + bool) \<Rightarrow> (int \<Rightarrow> 's \<Rightarrow> 's) \<Rightarrow> 's \<Rightarrow> error + 's" where
  "for_break [] test update s = Inr s"
| "for_break (i # is) test update s =
     and_then (test i s) (\<lambda>b. if b then Inr (update i s) else for_break is test update s)"

text \<open>
  An index along an axis of length \<open>n\<close>: a negative index counts from the end, and an
  index outside \<open>[-n, n)\<close> raises.
\<close>

definition index :: "nat \<Rightarrow> int \<Rightarrow> error + nat" where
  "index n i =
     (let j = (if i < 0 then int n + i else i)
      in if 0 \<le> j \<and> j < int n then Inr (nat j) else Inl IndexError)"

section \<open>The engine's record\<close>

text \<open>
  \<^verbatim>\<open>State._fields_\<close>: the arrays are C memory, kept here flat in row-major order
  (\<open>edges\<close> holds \<open>3 * (3 * max_num_nodes)\<close> integers, \<open>args_in_scope\<close> holds
  \<open>2 * max_num_vars\<close>). The entries are \<^verbatim>\<open>c_int\<close>; the modelled code only stores
  \<open>-1\<close> into them and compares them with \<open>-1\<close>, so they are integers here.
\<close>

record State =
  edges :: "int list"
  tests :: "int list"
  nodes :: "int list"
  starter :: "int list"
  permitted_actions :: "int list"
  vars_in_scope :: "int list"
  args_in_scope :: "int list"
  zast :: "nat list"
  cursor :: int
  num_nodes :: int
  num_edges :: int
  num_tests :: int
  num_vars :: int
  num_args :: int
  assignment :: int
  code :: int

text \<open>
  \<^verbatim>\<open>np.ctypeslib.as_array\<close> does not copy: the array it returns shares the memory of
  the ctypes field. An \<open>ndarray\<close> is therefore a view: the field of the record it reads
  and writes (\<open>base\<close>) and its shape. A one-dimensional array has \<open>rows\<close> entries; a
  two-dimensional one has \<open>rows\<close> rows of \<open>cols\<close> entries, row \<open>r\<close> starting at offset
  \<open>r * cols\<close>. A basic slice \<^verbatim>\<open>a[:i]\<close> is again a view of the same memory.
\<close>

datatype field = F_edges | F_nodes | F_starter | F_permitted_actions | F_vars_in_scope | F_args_in_scope

fun peek :: "State \<Rightarrow> field \<Rightarrow> int list" where
  "peek s F_edges = edges s"
| "peek s F_nodes = nodes s"
| "peek s F_starter = starter s"
| "peek s F_permitted_actions = permitted_actions s"
| "peek s F_vars_in_scope = vars_in_scope s"
| "peek s F_args_in_scope = args_in_scope s"

fun poke :: "State \<Rightarrow> field \<Rightarrow> int list \<Rightarrow> State" where
  "poke s F_edges xs = s\<lparr>edges := xs\<rparr>"
| "poke s F_nodes xs = s\<lparr>nodes := xs\<rparr>"
| "poke s F_starter xs = s\<lparr>starter := xs\<rparr>"
| "poke s F_permitted_actions xs = s\<lparr>permitted_actions := xs\<rparr>"
| "poke s F_vars_in_scope xs = s\<lparr>vars_in_scope := xs\<rparr>"
| "poke s F_args_in_scope xs = s\<lparr>args_in_scope := xs\<rparr>"

record ndarray =
  base :: field
  rows :: nat
  cols :: nat

text \<open>\<^verbatim>\<open>a[i]\<close> and \<^verbatim>\<open>a[i] = v\<close> on a one-dimensional array.\<close>

definition getitem :: "State \<Rightarrow> ndarray \<Rightarrow> int \<Rightarrow> error + int" where
  "getitem m a i = and_then (index (rows a) i) (\<lambda>r. Inr (peek m (base a) ! r))"

definition setitem :: "State \<Rightarrow> ndarray \<Rightarrow> int \<Rightarrow> int \<Rightarrow> error + State" where
  "setitem m a i v =
     and_then (index (rows a) i) (\<lambda>r. Inr (poke m (base a) ((peek m (base a))[r := v])))"

text \<open>\<^verbatim>\<open>a[i][j]\<close> and \<^verbatim>\<open>a[i][j] = v\<close> on a two-dimensional array.\<close>

definition getitem2 :: "State \<Rightarrow> ndarray \<Rightarrow> int \<Rightarrow> int \<Rightarrow> error + int" where
  "getitem2 m a i j =
     and_then (index (rows a) i) (\<lambda>r.
     and_then (index (cols a) j) (\<lambda>c. Inr (peek m (base a) ! (r * cols a + c))))"

definition setitem2 :: "State \<Rightarrow> ndarray \<Rightarrow> int \<Rightarrow> int \<Rightarrow> int \<Rightarrow> error + State" where
  "setitem2 m a i j v =
     and_then (index (rows a) i) (\<lambda>r.
     and_then (index (cols a) j) (\<lambda>c.
       Inr (poke m (base a) ((peek m (base a))[r * cols a + c := v]))))"

text \<open>\<^verbatim>\<open>a[:i]\<close>: the first \<open>i\<close> rows, clipped to the array as a slice is.\<close>

definition slice_to :: "ndarray \<Rightarrow> int \<Rightarrow> ndarray" where
  "slice_to a i =
     a\<lparr>rows := (if i < 0 then nat (int (rows a) + i) else min (nat i) (rows a))\<rparr>"

text \<open>What a view shows: the entries of a one-dimensional array, the rows of a
  two-dimensional one.\<close>

definition elems :: "State \<Rightarrow> ndarray \<Rightarrow> int list" where
  "elems m a = take (rows a) (peek m (base a))"

definition row :: "State \<Rightarrow> ndarray \<Rightarrow> nat \<Rightarrow> int list" where
  "row m a r = take (cols a) (drop (r * cols a) (peek m (base a)))"

definition rows_of :: "State \<Rightarrow> ndarray \<Rightarrow> int list list" where
  "rows_of m a = map (row m a) [0..<rows a]"

section \<open>The environment\<close>

text \<open>The dictionary that \<^verbatim>\<open>get_state\<close> builds, one field for each key.\<close>

record obs =
  nodes_o :: ndarray
  edges_o :: ndarray
  starter_o :: ndarray
  permitted_actions_o :: ndarray
  cursor_position :: int
  vars_in_scope_o :: ndarray
  args_in_scope_o :: ndarray
  assignment_o :: int

text \<open>
  The shared library \<^verbatim>\<open>astclib.so\<close> is not part of the repository: its functions are
  parameters. Each one gets the record by reference, so it returns the record it leaves
  behind; \<open>'e\<close> is whatever the library keeps between calls (its random state, the
  loaded assignments). A C function cannot resize a field of the record; that is a
  hypothesis (\<open>keeps_layout\<close> below) wherever a theorem needs it.
\<close>

record 'e astclib =
  init_c :: "int \<Rightarrow> 'e"
  take_action :: "'e \<Rightarrow> State \<Rightarrow> int \<Rightarrow> 'e \<times> State"
  check_ast :: "'e \<Rightarrow> State \<Rightarrow> 'e \<times> State \<times> int"
  init_assignment :: "'e \<Rightarrow> State \<Rightarrow> string \<Rightarrow> int \<Rightarrow> int \<Rightarrow> int \<Rightarrow> 'e \<times> State"

text \<open>\<^verbatim>\<open>ctypes.c_int(x)\<close> keeps the low 32 bits of \<open>x\<close>, read as two's complement.\<close>

definition c_int :: "int \<Rightarrow> int" where
  "c_int x = (x + 2 ^ 31) mod 2 ^ 32 - 2 ^ 31"

text \<open>
  \<^verbatim>\<open>ctype * n\<close>, for an element type of \<open>itemsize\<close> bytes: the length is converted
  to an index-sized integer (64 bits here, as on the platforms the library is built for),
  which raises \<^verbatim>\<open>OverflowError\<close> when it does not fit; a negative length raises
  \<^verbatim>\<open>ValueError\<close>; an array of more than \<open>2^63 - 1\<close> bytes raises
  \<^verbatim>\<open>OverflowError\<close>. A \<^verbatim>\<open>c_int\<close> has 4 bytes, a \<^verbatim>\<open>c_char\<close> 1.
  \<^verbatim>\<open>(ctype * n) * k\<close> is an array of \<open>k\<close> arrays of \<open>n\<close> elements. \<open>fields\<close>
  is the layout that \<^verbatim>\<open>State._fields_\<close> fixes: the number of entries of each array
  field. \<^verbatim>\<open>State()\<close> is a record of that layout, filled with zeros.
\<close>

definition c_array :: "nat \<Rightarrow> int \<Rightarrow> error + nat" where
  "c_array itemsize n =
     (if n < - (2 ^ 63) \<or> 2 ^ 63 - 1 < n then Inl OverflowError
      else if n < 0 then Inl ValueError
      else if itemsize \<noteq> 0 \<and> (2 ^ 63 - 1) div int itemsize < n then Inl OverflowError
      else Inr (nat n))"

definition c_array2 :: "nat \<Rightarrow> int \<Rightarrow> int \<Rightarrow> error + nat" where
  "c_array2 itemsize n k =
     and_then (c_array itemsize n) (\<lambda>a. and_then (c_array (itemsize * a) k) (\<lambda>b. Inr (a * b)))"

record fields =
  edges_n :: nat
  tests_n :: nat
  nodes_n :: nat
  starter_n :: nat
  permitted_actions_n :: nat
  vars_in_scope_n :: nat
  args_in_scope_n :: nat
  zast_n :: nat

definition State_new :: "fields \<Rightarrow> State" where
  "State_new f =
     \<lparr>edges = replicate (edges_n f) 0, tests = replicate (tests_n f) 0,
      nodes = replicate (nodes_n f) 0, starter = replicate (starter_n f) 0,
      permitted_actions = replicate (permitted_actions_n f) 0,
      vars_in_scope = replicate (vars_in_scope_n f) 0,
      args_in_scope = replicate (args_in_scope_n f) 0, zast = replicate (zast_n f) 0,
      cursor = 0, num_nodes = 0, num_edges = 0, num_tests = 0, num_vars = 0, num_args = 0,
      assignment = 0, code = 0\<rparr>"

definition State_fields_of :: "int \<Rightarrow> int \<Rightarrow> int \<Rightarrow> int \<Rightarrow> int \<Rightarrow> error + fields" where
  "State_fields_of max_num_nodes max_num_tests num_actions max_num_vars max_tree_length =
     and_then (c_array2 4 (max_num_nodes * 3) 3) (\<lambda>n_edges.
     and_then (c_array2 4 max_num_tests 2) (\<lambda>n_tests.
     and_then (c_array 4 max_num_nodes) (\<lambda>n_nodes.
     and_then (c_array 4 max_num_nodes) (\<lambda>n_starter.
     and_then (c_array 4 (num_actions + max_num_vars * 2)) (\<lambda>n_permitted.
     and_then (c_array 4 max_num_vars) (\<lambda>n_vars.
     and_then (c_array2 4 max_num_vars 2) (\<lambda>n_args.
     and_then (c_array 1 max_tree_length) (\<lambda>n_zast.
       Inr \<lparr>edges_n = n_edges, tests_n = n_tests, nodes_n = n_nodes, starter_n = n_starter,
            permitted_actions_n = n_permitted, vars_in_scope_n = n_vars,
            args_in_scope_n = n_args, zast_n = n_zast\<rparr>))))))))"

text \<open>
  The gym spaces the constructor builds; a vector of counts is kept flat, with the
  entries it has in the space, where \<^verbatim>\<open>MultiDiscrete\<close> keeps them as \<^verbatim>\<open>int64\<close>.
\<close>

datatype space = Discrete int | MultiDiscrete "int list" | MultiBinary int

text \<open>
  What the constructor takes from the process and the machine it runs in:
  \<^item> the loader (\<^verbatim>\<open>ctypes.CDLL\<close> raises \<^verbatim>\<open>OSError\<close> when the library cannot be
    loaded);
  \<^item> the assertions of the installed gym release on the arguments of a space
    (\<open>gym_strict\<close> is the strictest of them: every size and every count positive);
  \<^item> whether \<^verbatim>\<open>State._fields_\<close> has been assigned before in this process:
    \<^verbatim>\<open>State\<close> is a class of the module, and ctypes lets the fields of a structure be
    assigned once;
  \<^item> numpy: the exception, if any, that \<^verbatim>\<open>scale * np.ones(shape)\<close> ends in on this
    machine for an array of so many entries (no memory for it, a scale it cannot
    convert), and the \<^verbatim>\<open>int64\<close> that an entry becomes whose scale is beyond
    \<open>2^53\<close> in magnitude, where a \<^verbatim>\<open>float64\<close> no longer holds every integer.
\<close>

record 'e sys =
  CDLL :: "string \<Rightarrow> error + 'e astclib"
  gym_accepts :: "space \<Rightarrow> bool"
  State_final :: bool
  np_fails :: "int \<Rightarrow> nat \<Rightarrow> error option"
  np_int64 :: "int \<Rightarrow> int"

text \<open>
  \<^verbatim>\<open>scale * np.ones(shape)\<close> as the vector of counts a \<^verbatim>\<open>MultiDiscrete\<close> keeps
  of it. \<^verbatim>\<open>np.ones\<close> raises \<^verbatim>\<open>ValueError\<close> for a negative dimension. The product
  is an array of \<^verbatim>\<open>float64\<close>, which the space casts to \<^verbatim>\<open>int64\<close>: a scale of
  magnitude up to \<open>2^53\<close> comes back as it is.
\<close>

definition nvec_of :: "'e sys \<Rightarrow> int \<Rightarrow> int list \<Rightarrow> error + int list" where
  "nvec_of sys scale shape =
     (if \<exists>d \<in> set shape. d < 0 then Inl ValueError
      else (case np_fails sys scale (nat (prod_list shape)) of
              Some e \<Rightarrow> Inl e
            | None \<Rightarrow>
                Inr (replicate (nat (prod_list shape))
                       (if \<bar>scale\<bar> \<le> 2 ^ 53 then scale else np_int64 sys scale))))"

definition mk_space :: "'e sys \<Rightarrow> space \<Rightarrow> error + space" where
  "mk_space sys sp = (if gym_accepts sys sp then Inr sp else Inl AssertionError)"

fun gym_strict :: "space \<Rightarrow> bool" where
  "gym_strict (Discrete n) = (0 < n)"
| "gym_strict (MultiDiscrete nvec) = list_all (\<lambda>x. 0 < x) nvec"
| "gym_strict (MultiBinary n) = (0 < n)"

record 'e ASTEnv =
  State_fields :: fields
  num_node_descriptor :: int
  max_num_nodes :: int
  num_actions :: int
  max_num_vars :: int
  perturbation :: int
  action_space :: space
  observation_space :: "(string \<times> space) list"
  astclib :: "'e astclib"
  engine :: 'e
  state :: "State option"
  code_per_assignment :: "int list"
  assignment_dir :: string

text \<open>
  \<^verbatim>\<open>ASTEnv.__init__\<close>, statement by statement: the layout of \<^verbatim>\<open>State\<close> (the
  array types first, then the assignment to \<^verbatim>\<open>State._fields_\<close>, which raises
  \<^verbatim>\<open>AttributeError\<close> when the fields are final), the attributes, the four vectors of
  counts, the action space, the observation space (the entries of the dictionary in the
  order they are written), the library, and the call of \<^verbatim>\<open>init_c\<close>. No statement
  compares one argument with another or with zero.
\<close>

definition init ::
  "'e sys \<Rightarrow> int \<Rightarrow> int \<Rightarrow> int \<Rightarrow> int list \<Rightarrow> int \<Rightarrow> string \<Rightarrow> int \<Rightarrow> int \<Rightarrow> int \<Rightarrow> int \<Rightarrow> int
   \<Rightarrow> error + 'e ASTEnv" where
  "init sys max_num_nodes' num_node_descriptor' num_assignments' code_per_assignment' num_actions'
        assignment_dir' perturbation' max_num_tests' max_tree_length' max_num_vars' seed' =
     and_then (State_fields_of max_num_nodes' max_num_tests' num_actions' max_num_vars'
                 max_tree_length') (\<lambda>fs.
     and_then (if State_final sys then Inl AttributeError else Inr ()) (\<lambda>_.
     and_then (nvec_of sys (num_node_descriptor' + max_num_vars' + 1) [max_num_nodes'])
       (\<lambda>node_nvec.
     and_then (nvec_of sys (max_num_nodes' + 1) [max_num_nodes' * 3, 3]) (\<lambda>edge_nvec.
     and_then (nvec_of sys (max_num_nodes' + 1) [max_num_vars']) (\<lambda>vars_nvec.
     and_then (nvec_of sys (max_num_nodes' + 1) [max_num_vars', 2]) (\<lambda>args_nvec.
     and_then (mk_space sys (Discrete (num_actions' + max_num_vars'))) (\<lambda>act.
     and_then (mk_space sys (MultiDiscrete node_nvec)) (\<lambda>sp_nodes.
     and_then (mk_space sys (MultiDiscrete edge_nvec)) (\<lambda>sp_edges.
     and_then (mk_space sys (MultiBinary (num_actions' + max_num_vars' * 2))) (\<lambda>sp_permitted.
     and_then (mk_space sys (MultiDiscrete node_nvec)) (\<lambda>sp_starter.
     and_then (mk_space sys (Discrete max_num_nodes')) (\<lambda>sp_cursor.
     and_then (mk_space sys (MultiDiscrete vars_nvec)) (\<lambda>sp_vars.
     and_then (mk_space sys (MultiDiscrete args_nvec)) (\<lambda>sp_args.
     and_then (mk_space sys (Discrete num_assignments')) (\<lambda>sp_assignment.
     and_then (CDLL sys ''/RL_env/clib/astclib.so'') (\<lambda>lib.
       Inr \<lparr>State_fields = fs,
            num_node_descriptor = num_node_descriptor',
            max_num_nodes = max_num_nodes',
            num_actions = num_actions',
            max_num_vars = max_num_vars',
            perturbation = perturbation',
            action_space = act,
            observation_space =
              [(''nodes'', sp_nodes), (''edges'', sp_edges),
               (''permitted_actions'', sp_permitted), (''starter'', sp_starter),
               (''cursor_position'', sp_cursor), (''vars_in_scope'', sp_vars),
               (''args_in_scope'', sp_args), (''assignment'', sp_assignment)],
            astclib = lib,
            engine = init_c lib (c_int seed'),
            state = None,
            code_per_assignment = code_per_assignment',
            assignment_dir = assignment_dir'\<rparr>))))))))))))))))"

text \<open>
  \<^verbatim>\<open>pad_states\<close>: four loops that store the sentinel through the arrays of the
  dictionary. The counts are read from \<^verbatim>\<open>self.state\<close>; the arrays are the views that
  \<^verbatim>\<open>get_state\<close> made of the same record, so the stores land in it. With
  \<^verbatim>\<open>self.state\<close> still \<^verbatim>\<open>None\<close> the first attribute access raises.
\<close>

definition pad_states :: "'e ASTEnv \<Rightarrow> obs \<Rightarrow> error + 'e ASTEnv \<times> obs" where
  "pad_states self st =
     (case state self of
        None \<Rightarrow> Inl AttributeError
      | Some s0 \<Rightarrow>
          and_then (for_in (range_py (num_nodes s0) (max_num_nodes self))
                      (\<lambda>i s. and_then (setitem s (nodes_o st) i (- 1))
                                (\<lambda>s. setitem s (starter_o st) i (- 1))) s0) (\<lambda>s1.
          and_then (for_in (range_py (num_edges s1) (max_num_nodes self * 3))
                      (\<lambda>i s. setitem2 s (edges_o st) i 0 (- 1)) s1) (\<lambda>s2.
          and_then (for_in (range_py (num_vars s2) (max_num_vars self))
                      (\<lambda>i s. setitem s (vars_in_scope_o st) i (- 1)) s2) (\<lambda>s3.
          and_then (for_in (range_py (num_args s3) (max_num_vars self))
                      (\<lambda>i s. setitem2 s (args_in_scope_o st) i 0 (- 1)) s3) (\<lambda>s4.
          Inr (self\<lparr>state := Some s4\<rparr>, st))))))"

text \<open>
  \<^verbatim>\<open>get_state\<close>: the views of \<^verbatim>\<open>self.state\<close> (\<open>edges\<close> reshaped to rows of 3,
  \<open>args_in_scope\<close> to rows of 2; \<^verbatim>\<open>reshape(-1, k)\<close> takes the number of rows from the
  size), the two scalars, then \<^verbatim>\<open>pad_states\<close>.
\<close>

definition views :: "State \<Rightarrow> obs" where
  "views s =
     \<lparr>nodes_o = \<lparr>base = F_nodes, rows = length (nodes s), cols = 1\<rparr>,
      edges_o = \<lparr>base = F_edges, rows = length (edges s) div 3, cols = 3\<rparr>,
      starter_o = \<lparr>base = F_starter, rows = length (starter s), cols = 1\<rparr>,
      permitted_actions_o =
        \<lparr>base = F_permitted_actions, rows = length (permitted_actions s), cols = 1\<rparr>,
      cursor_position = cursor s,
      vars_in_scope_o = \<lparr>base = F_vars_in_scope, rows = length (vars_in_scope s), cols = 1\<rparr>,
      args_in_scope_o = \<lparr>base = F_args_in_scope, rows = length (args_in_scope s) div 2, cols = 2\<rparr>,
      assignment_o = assignment s\<rparr>"

definition get_state :: "'e ASTEnv \<Rightarrow> error + 'e ASTEnv \<times> obs" where
  "get_state self =
     (case state self of
        None \<Rightarrow> Inl AttributeError
      | Some s \<Rightarrow> pad_states self (views s))"

text \<open>
  \<^verbatim>\<open>unpad_states\<close>: each loop looks for the first sentinel in the marker position and
  cuts the field there (the first loop cuts \<open>starter\<close> with \<open>nodes\<close>). It reads the
  arrays only; \<open>m\<close> is the memory they are views of.
\<close>

definition unpad_states :: "'e ASTEnv \<Rightarrow> State \<Rightarrow> obs \<Rightarrow> error + obs" where
  "unpad_states self m st =
     and_then (for_break (range_py 0 (max_num_nodes self))
                 (\<lambda>i st. and_then (getitem m (nodes_o st) i) (\<lambda>v. Inr (v = - 1)))
                 (\<lambda>i st. st\<lparr>nodes_o := slice_to (nodes_o st) i,
                              starter_o := slice_to (starter_o st) i\<rparr>) st) (\<lambda>st1.
     and_then (for_break (range_py 0 (max_num_nodes self * 3))
                 (\<lambda>i st. and_then (getitem2 m (edges_o st) i 0) (\<lambda>v. Inr (v = - 1)))
                 (\<lambda>i st. st\<lparr>edges_o := slice_to (edges_o st) i\<rparr>) st1) (\<lambda>st2.
     and_then (for_break (range_py 0 (max_num_vars self))
                 (\<lambda>i st. and_then (getitem m (vars_in_scope_o st) i) (\<lambda>v. Inr (v = - 1)))
                 (\<lambda>i st. st\<lparr>vars_in_scope_o := slice_to (vars_in_scope_o st) i\<rparr>) st2) (\<lambda>st3.
     for_break (range_py 0 (max_num_vars self))
       (\<lambda>i st. and_then (getitem2 m (args_in_scope_o st) i 0) (\<lambda>v. Inr (v = - 1)))
       (\<lambda>i st. st\<lparr>args_in_scope_o := slice_to (args_in_scope_o st) i\<rparr>) st3)))"

text \<open>
  \<^verbatim>\<open>step\<close>. \<^verbatim>\<open>ctypes.byref\<close> raises \<^verbatim>\<open>TypeError\<close> while \<^verbatim>\<open>self.state\<close> is
  \<^verbatim>\<open>None\<close>. The reward is whatever \<^verbatim>\<open>check_ast\<close> returns; \<open>info\<close> is the empty
  dictionary.
\<close>

definition step ::
  "'e ASTEnv \<Rightarrow> int \<Rightarrow> error + 'e ASTEnv \<times> (obs \<times> int \<times> bool \<times> (string \<rightharpoonup> int))" where
  "step self action =
     (case state self of
        None \<Rightarrow> Inl TypeError
      | Some s \<Rightarrow>
          (case take_action (astclib self) (engine self) s (c_int action) of (e1, s1) \<Rightarrow>
           case check_ast (astclib self) e1 s1 of (e2, s2, reward) \<Rightarrow>
           let done = (if reward = 1 then True else False)
           in and_then (get_state (self\<lparr>engine := e2, state := Some s2\<rparr>))
                (\<lambda>(self', st). Inr (self', (st, reward, done, Map.empty)))))"

text \<open>
  Random draws. A call that draws random numbers has finitely many outcomes, each with
  its probability: a list of the outcomes with their weights, an outcome being an
  exception or a value (\<open>certain\<close>: no draw, one outcome; \<open>draw_then\<close>: the rest of
  the code runs on each value drawn, and an exception ends the call). The two generators
  the code draws from are independent of each other (the one of the gym space, numpy's;
  the one of the module \<^verbatim>\<open>random\<close>), so the weights multiply.
\<close>

type_synonym 'a rand = "((error + 'a) \<times> rat) list"

definition certain :: "error + 'a \<Rightarrow> 'a rand" where
  "certain r = [(r, 1)]"

definition draw_then :: "'a rand \<Rightarrow> ('a \<Rightarrow> 'b rand) \<Rightarrow> 'b rand" where
  "draw_then d f =
     concat (map (\<lambda>(r, p). case r of
                              Inl e \<Rightarrow> [(Inl e, p)]
                            | Inr x \<Rightarrow> map (\<lambda>(y, q). (y, p * q)) (f x)) d)"

text \<open>
  \<^verbatim>\<open>Discrete(n).sample()\<close> returns each of \<open>0, ..., n - 1\<close> with the same
  probability, and \<^verbatim>\<open>random.randint(a, b)\<close> each of \<open>a, ..., b\<close>; both raise
  \<^verbatim>\<open>ValueError\<close> on an empty range. The sample of another space is an array, which
  is no index of a list.
\<close>

definition sample :: "space \<Rightarrow> int rand" where
  "sample sp =
     (case sp of
        Discrete n \<Rightarrow>
          if n \<le> 0 then certain (Inl ValueError)
          else map (\<lambda>x. (Inr x, 1 / of_int n)) (range_py 0 n)
      | _ \<Rightarrow> certain (Inl TypeError))"

definition randint :: "int \<Rightarrow> int \<Rightarrow> int rand" where
  "randint a b =
     (if b < a then certain (Inl ValueError)
      else map (\<lambda>x. (Inr x, 1 / of_int (b - a + 1))) (range_py a (b + 1)))"

definition list_getitem :: "'a list \<Rightarrow> int \<Rightarrow> error + 'a" where
  "list_getitem xs i = and_then (index (length xs) i) (\<lambda>k. Inr (xs ! k))"

text \<open>
  \<^verbatim>\<open>reset\<close>: the assignment drawn from the space \<^verbatim>\<open>assignment\<close> of the
  observation space, the code drawn by \<^verbatim>\<open>random.randint(0, k - 1)\<close> for the entry
  \<open>k\<close> of \<^verbatim>\<open>code_per_assignment\<close>, a fresh record, the engine's
  \<^verbatim>\<open>init_assignment\<close> on it, then \<^verbatim>\<open>get_state\<close>.
\<close>

definition reset :: "'e ASTEnv \<Rightarrow> ('e ASTEnv \<times> obs) rand" where
  "reset self =
     (case map_of (observation_space self) ''assignment'' of
        None \<Rightarrow> certain (Inl AttributeError)
      | Some sp \<Rightarrow>
          draw_then (sample sp) (\<lambda>assignment.
          draw_then (certain (list_getitem (code_per_assignment self) assignment)) (\<lambda>k.
          draw_then (randint 0 (k - 1)) (\<lambda>code.
          certain
            (case init_assignment (astclib self) (engine self) (State_new (State_fields self))
                    (assignment_dir self) (c_int assignment) (c_int code)
                    (c_int (perturbation self)) of
               (e1, s1) \<Rightarrow> get_state (self\<lparr>engine := e1, state := Some s1\<rparr>))))))"


section \<open>Well-formed records and the padded form\<close>

text \<open>
  \<open>fits\<close>: the record has the layout that the constructor gave \<^verbatim>\<open>State\<close> for the
  capacities of this environment. \<open>counts_ok\<close>: each count lies between 0 and the
  capacity its loop in \<^verbatim>\<open>pad_states\<close> runs to.
\<close>

definition fits :: "'e ASTEnv \<Rightarrow> State \<Rightarrow> bool" where
  "fits self s \<longleftrightarrow>
     0 \<le> max_num_nodes self \<and> 0 \<le> max_num_vars self \<and>
     length (nodes s) = nat (max_num_nodes self) \<and>
     length (starter s) = nat (max_num_nodes self) \<and>
     length (edges s) = 9 * nat (max_num_nodes self) \<and>
     length (vars_in_scope s) = nat (max_num_vars self) \<and>
     length (args_in_scope s) = 2 * nat (max_num_vars self) \<and>
     length (permitted_actions s) = nat (num_actions self + max_num_vars self * 2)"

definition counts_ok :: "'e ASTEnv \<Rightarrow> State \<Rightarrow> bool" where
  "counts_ok self s \<longleftrightarrow>
     0 \<le> num_nodes s \<and> num_nodes s \<le> max_num_nodes self \<and>
     0 \<le> num_edges s \<and> num_edges s \<le> max_num_nodes self * 3 \<and>
     0 \<le> num_vars s \<and> num_vars s \<le> max_num_vars self \<and>
     0 \<le> num_args s \<and> num_args s \<le> max_num_vars self"

text \<open>
  \<open>mark w lo hi xs\<close>: the flat array \<open>xs\<close> of rows of width \<open>w\<close> with the sentinel in
  the first entry of every row from \<open>lo\<close> up to, not including, \<open>hi\<close>. \<open>padded\<close> is
  the record with the four loops of \<^verbatim>\<open>pad_states\<close> carried out; that the loops
  compute it is lemma \<open>get_state_padded\<close>.
\<close>

definition mark :: "nat \<Rightarrow> nat \<Rightarrow> nat \<Rightarrow> int list \<Rightarrow> int list" where
  "mark w lo hi xs =
     map (\<lambda>k. if k mod w = 0 \<and> lo \<le> k div w \<and> k div w < hi then - 1 else xs ! k)
       [0..<length xs]"

definition padded :: "'e ASTEnv \<Rightarrow> State \<Rightarrow> State" where
  "padded self s =
     s\<lparr>nodes := mark 1 (nat (num_nodes s)) (nat (max_num_nodes self)) (nodes s),
       starter := mark 1 (nat (num_nodes s)) (nat (max_num_nodes self)) (starter s),
       edges := mark 3 (nat (num_edges s)) (nat (max_num_nodes self * 3)) (edges s),
       vars_in_scope := mark 1 (nat (num_vars s)) (nat (max_num_vars self)) (vars_in_scope s),
       args_in_scope := mark 2 (nat (num_args s)) (nat (max_num_vars self)) (args_in_scope s)\<rparr>"

text \<open>
  \<open>boundary w n xs\<close>: the index of the first of the rows \<open>0..<n\<close> of width \<open>w\<close> whose
  first entry is the sentinel, and \<open>n\<close> when there is none. \<open>obs_ok\<close>: an observation of
  the shape the observation space gives it, whose arrays lie within the memory \<open>m\<close>.
  \<open>unpadded\<close> is such an observation with every field cut at its boundary; that
  \<^verbatim>\<open>unpad_states\<close> computes it is lemma \<open>unpad_states_unpadded\<close>.
\<close>

definition boundary :: "nat \<Rightarrow> nat \<Rightarrow> int list \<Rightarrow> nat" where
  "boundary w n xs = length (takeWhile (\<lambda>k. xs ! (k * w) \<noteq> - 1) [0..<n])"

definition obs_ok :: "'e ASTEnv \<Rightarrow> State \<Rightarrow> obs \<Rightarrow> bool" where
  "obs_ok self m st \<longleftrightarrow>
     0 \<le> max_num_nodes self \<and> 0 \<le> max_num_vars self \<and>
     rows (nodes_o st) = nat (max_num_nodes self) \<and>
     rows (nodes_o st) \<le> length (peek m (base (nodes_o st))) \<and>
     rows (starter_o st) = nat (max_num_nodes self) \<and>
     rows (starter_o st) \<le> length (peek m (base (starter_o st))) \<and>
     rows (edges_o st) = nat (max_num_nodes self * 3) \<and> cols (edges_o st) = 3 \<and>
     rows (edges_o st) * 3 \<le> length (peek m (base (edges_o st))) \<and>
     rows (vars_in_scope_o st) = nat (max_num_vars self) \<and>
     rows (vars_in_scope_o st) \<le> length (peek m (base (vars_in_scope_o st))) \<and>
     rows (args_in_scope_o st) = nat (max_num_vars self) \<and> cols (args_in_scope_o st) = 2 \<and>
     rows (args_in_scope_o st) * 2 \<le> length (peek m (base (args_in_scope_o st)))"

definition unpadded :: "'e ASTEnv \<Rightarrow> State \<Rightarrow> obs \<Rightarrow> obs" where
  "unpadded self m st =
     (let bn = boundary 1 (nat (max_num_nodes self)) (peek m (base (nodes_o st)));
          be = boundary 3 (nat (max_num_nodes self * 3)) (peek m (base (edges_o st)));
          bv = boundary 1 (nat (max_num_vars self)) (peek m (base (vars_in_scope_o st)));
          ba = boundary 2 (nat (max_num_vars self)) (peek m (base (args_in_scope_o st)))
      in st\<lparr>nodes_o := (nodes_o st)\<lparr>rows := bn\<rparr>,
            starter_o := (starter_o st)\<lparr>rows := bn\<rparr>,
            edges_o := (edges_o st)\<lparr>rows := be\<rparr>,
            vars_in_scope_o := (vars_in_scope_o st)\<lparr>rows := bv\<rparr>,
            args_in_scope_o := (args_in_scope_o st)\<lparr>rows := ba\<rparr>\<rparr>)"

text \<open>
  \<open>same_layout\<close>: two records with arrays of the same sizes. \<open>keeps_layout\<close>: no
  function of the library changes the size of an array of the record it is given (the
  record is a C struct of fixed layout).
\<close>

definition same_layout :: "State \<Rightarrow> State \<Rightarrow> bool" where
  "same_layout s s' \<longleftrightarrow>
     length (edges s') = length (edges s) \<and> length (tests s') = length (tests s) \<and>
     length (nodes s') = length (nodes s) \<and> length (starter s') = length (starter s) \<and>
     length (permitted_actions s') = length (permitted_actions s) \<and>
     length (vars_in_scope s') = length (vars_in_scope s) \<and>
     length (args_in_scope s') = length (args_in_scope s) \<and> length (zast s') = length (zast s)"

definition keeps_layout :: "'e astclib \<Rightarrow> bool" where
  "keeps_layout lib \<longleftrightarrow>
     (\<forall>e s a. same_layout s (snd (take_action lib e s a))) \<and>
     (\<forall>e s. same_layout s (fst (snd (check_ast lib e s)))) \<and>
     (\<forall>e s d a c p. same_layout s (snd (init_assignment lib e s d a c p)))"

text \<open>
  An episode history: what an environment \<open>e0\<close> can have become, and the observation
  it returned last, after a \<^verbatim>\<open>reset\<close> followed by any number of \<^verbatim>\<open>step\<close> and
  \<^verbatim>\<open>reset\<close> calls that returned.
\<close>

inductive episode :: "'e ASTEnv \<Rightarrow> 'e ASTEnv \<Rightarrow> obs \<Rightarrow> bool" for e0 :: "'e ASTEnv" where
  first_reset: "(Inr (e, ob), w) \<in> set (reset e0) \<Longrightarrow> episode e0 e ob"
| next_reset:
    "episode e0 e ob \<Longrightarrow> (Inr (e', ob'), w) \<in> set (reset e) \<Longrightarrow> episode e0 e' ob'"
| next_step: "episode e0 e ob \<Longrightarrow> step e act = Inr (e', (ob', r, d, info)) \<Longrightarrow> episode e0 e' ob'"

text \<open>\<open>raised\<close>: the call ended in an exception.\<close>

definition raised :: "error + 'a \<Rightarrow> bool" where
  "raised r = (case r of Inl e \<Rightarrow> True | Inr x \<Rightarrow> False)"

text \<open>
  A small environment for the examples below: two nodes, one variable, one action, a
  library that leaves the record alone and reports no success.
\<close>

definition lib_ex :: "unit astclib" where
  "lib_ex =
     \<lparr>init_c = (\<lambda>seed. ()),
      take_action = (\<lambda>e s a. (e, s)),
      check_ast = (\<lambda>e s. (e, s, 0)),
      init_assignment = (\<lambda>e s d a c p. (e, s))\<rparr>"

definition s_ex :: State where
  "s_ex =
     \<lparr>edges = [0, 1, 2, 7, 7, 7, 8, 8, 8, 9, 9, 9, 5, 5, 5, 6, 6, 6], tests = [],
      nodes = [3, 4], starter = [3, 5], permitted_actions = [1, 0, 1], vars_in_scope = [9],
      args_in_scope = [4, 4], zast = [], cursor = 0, num_nodes = 1, num_edges = 1,
      num_tests = 0, num_vars = 0, num_args = 0, assignment = 0, code = 0\<rparr>"

definition env_ex :: "unit ASTEnv" where
  "env_ex =
     \<lparr>State_fields =
        \<lparr>edges_n = 18, tests_n = 0, nodes_n = 2, starter_n = 2, permitted_actions_n = 3,
         vars_in_scope_n = 1, args_in_scope_n = 2, zast_n = 0\<rparr>,
      num_node_descriptor = 5, max_num_nodes = 2, num_actions = 1, max_num_vars = 1,
      perturbation = 0, action_space = Discrete 2,
      observation_space =
        [(''nodes'', MultiDiscrete [7, 7]), (''edges'', MultiDiscrete (replicate 18 3)),
         (''permitted_actions'', MultiBinary 3), (''starter'', MultiDiscrete [7, 7]),
         (''cursor_position'', Discrete 2), (''vars_in_scope'', MultiDiscrete [3]),
         (''args_in_scope'', MultiDiscrete [3, 3]), (''assignment'', Discrete 1)],
      astclib = lib_ex, engine = (), state = Some s_ex, code_per_assignment = [1],
      assignment_dir = ''d''\<rparr>"

text \<open>
  A fresh process on a machine on which the library loads, gym makes its strictest
  assertions and numpy has room for every array. No example has a scale beyond
  \<open>2^53\<close>, so \<open>np_int64\<close> is never consulted; it is the identity here.
\<close>

definition sys_ex :: "unit sys" where
  "sys_ex =
     \<lparr>CDLL = (\<lambda>path. Inr lib_ex), gym_accepts = gym_strict, State_final = False,
      np_fails = (\<lambda>scale n. None), np_int64 = (\<lambda>scale. scale)\<rparr>"

text \<open>
  The example record with both nodes live (no room left for a sentinel in \<open>nodes\<close>) and a
  \<open>-1\<close> among the entries of \<open>starter\<close>, and the example record after padding.
\<close>

definition s_full :: State where
  "s_full = s_ex\<lparr>starter := [- 1, 5], num_nodes := 2\<rparr>"

definition env_full :: "unit ASTEnv" where
  "env_full = env_ex\<lparr>state := Some s_full\<rparr>"

definition s_pad :: State where
  "s_pad =
     s_ex\<lparr>edges := [0, 1, 2, - 1, 7, 7, - 1, 8, 8, - 1, 9, 9, - 1, 5, 5, - 1, 6, 6],
          nodes := [3, - 1], starter := [3, - 1], vars_in_scope := [- 1],
          args_in_scope := [- 1, 4]\<rparr>"





section \<open>Lemmas about the loops\<close>

lemma and_then_Inr [simp]: "and_then (Inr x) f = f x"
  by (simp add: and_then_def)

lemma and_then_Inl [simp]: "and_then (Inl e) f = Inl e"
  by (simp add: and_then_def)

lemma for_in_append: "for_in (xs @ ys) body s = and_then (for_in xs body s) (for_in ys body)"
  by (induction xs arbitrary: s) (auto simp: and_then_def split: sum.splits)

lemma range_py_empty [simp]: "hi \<le> lo \<Longrightarrow> range_py lo hi = []"
  by (simp add: range_py_def)

lemma range_py_snoc: "lo \<le> hi \<Longrightarrow> range_py lo (hi + 1) = range_py lo hi @ [hi]"
  using upto_rec2 [of lo hi] by (simp add: range_py_def)

lemma range_py_split:
  "lo \<le> k \<Longrightarrow> k < hi \<Longrightarrow> range_py lo hi = range_py lo k @ k # range_py (k + 1) hi"
  using upto_split3 [of lo k "hi - 1"] by (simp add: range_py_def)

lemma set_range_py [simp]: "set (range_py lo hi) = {i. lo \<le> i \<and> i < hi}"
  by (auto simp: range_py_def)

lemma index_nat [simp]: "k < n \<Longrightarrow> index n (int k) = Inr k"
  by (simp add: index_def)

lemma peek_poke [simp]: "peek (poke s f xs) g = (if f = g then xs else peek s g)"
  by (cases f; cases g) simp_all

lemma poke_poke [simp]: "poke (poke s f xs) f ys = poke s f ys"
  by (cases f) simp_all

lemma poke_peek [simp]: "poke s f (peek s f) = s"
  by (cases f) simp_all

lemma length_mark [simp]: "length (mark w lo hi xs) = length xs"
  by (simp add: mark_def)

lemma nth_mark:
  "k < length xs \<Longrightarrow>
   mark w lo hi xs ! k = (if k mod w = 0 \<and> lo \<le> k div w \<and> k div w < hi then - 1 else xs ! k)"
  by (simp add: mark_def)

lemma mark_empty [simp]: "hi \<le> lo \<Longrightarrow> mark w lo hi xs = xs"
  by (rule nth_equalityI) (auto simp: nth_mark)

lemma mark_step:
  assumes "0 < w" "lo \<le> hi" "hi * w < length xs"
  shows "(mark w lo hi xs)[hi * w := - 1] = mark w lo (Suc hi) xs"
proof (rule nth_equalityI)
  show "length ((mark w lo hi xs)[hi * w := - 1]) = length (mark w lo (Suc hi) xs)" by simp
next
  fix k assume "k < length ((mark w lo hi xs)[hi * w := - 1])"
  then have k: "k < length xs" by simp
  show "(mark w lo hi xs)[hi * w := - 1] ! k = mark w lo (Suc hi) xs ! k"
  proof (cases "k = hi * w")
    case True
    with assms k show ?thesis by (simp add: nth_mark)
  next
    case False
    have "\<not> (k mod w = 0 \<and> k div w = hi)"
    proof
      assume "k mod w = 0 \<and> k div w = hi"
      then have "k = hi * w" using div_mult_mod_eq [of k w] by simp
      with False show False by simp
    qed
    with False k show ?thesis by (auto simp: nth_mark less_Suc_eq)
  qed
qed

lemma for_in_snoc:
  assumes "lo \<le> hi"
  shows "for_in (range_py (int lo) (int (Suc hi))) body s
         = and_then (for_in (range_py (int lo) (int hi)) body s) (body (int hi))"
proof -
  have "range_py (int lo) (int (Suc hi)) = range_py (int lo) (int hi) @ [int hi]"
    using range_py_snoc [of "int lo" "int hi"] assms by (simp add: add.commute)
  then show ?thesis
    by (simp add: for_in_append and_then_def split: sum.splits)
qed

lemma setitem_nat:
  "k < rows a \<Longrightarrow> setitem s a (int k) v = Inr (poke s (base a) ((peek s (base a))[k := v]))"
  by (simp add: setitem_def)

lemma setitem2_nat:
  "k < rows a \<Longrightarrow> 0 < cols a \<Longrightarrow>
   setitem2 s a (int k) 0 v = Inr (poke s (base a) ((peek s (base a))[k * cols a := v]))"
  using index_nat [of 0 "cols a"] by (simp add: setitem2_def)

lemma for_in_setitem2:
  assumes "0 < cols a" "lo \<le> hi" "hi \<le> rows a" "rows a * cols a \<le> length (peek s (base a))"
  shows "for_in (range_py (int lo) (int hi)) (\<lambda>i s. setitem2 s a i 0 (- 1)) s
         = Inr (poke s (base a) (mark (cols a) lo hi (peek s (base a))))"
  using assms(2,3)
proof (induction hi)
  case 0
  then show ?case by simp
next
  case (Suc hi)
  show ?case
  proof (cases "lo = Suc hi")
    case True
    then show ?thesis by simp
  next
    case False
    with Suc.prems have le: "lo \<le> hi" and lt: "hi < rows a" by simp_all
    have "hi * cols a + cols a \<le> rows a * cols a"
      using lt by (metis Suc_leI mult_Suc mult_le_mono1 add.commute)
    with assms(1,4) have off: "hi * cols a < length (peek s (base a))" by simp
    show ?thesis
      unfolding for_in_snoc [OF le]
      using Suc.IH le lt assms(1)
      by (simp add: setitem2_nat mark_step [OF assms(1) le off])
  qed
qed

lemma for_in_setitem:
  assumes "lo \<le> hi" "hi \<le> rows a" "rows a \<le> length (peek s (base a))"
  shows "for_in (range_py (int lo) (int hi)) (\<lambda>i s. setitem s a i (- 1)) s
         = Inr (poke s (base a) (mark 1 lo hi (peek s (base a))))"
  using assms(1,2)
proof (induction hi)
  case 0
  then show ?case by simp
next
  case (Suc hi)
  show ?case
  proof (cases "lo = Suc hi")
    case True
    then show ?thesis by simp
  next
    case False
    with Suc.prems have le: "lo \<le> hi" and lt: "hi < rows a" by simp_all
    with assms(3) have off: "hi * 1 < length (peek s (base a))" by simp
    show ?thesis
      unfolding for_in_snoc [OF le]
      using Suc.IH le lt mark_step [OF _ le off]
      by (simp add: setitem_nat)
  qed
qed

lemma poke_swap:
  "f \<noteq> g \<Longrightarrow> poke (poke s f xs) g ys = poke (poke s g ys) f xs"
  by (cases f; cases g) simp_all

lemma for_in_setitem_pair:
  assumes "lo \<le> hi" "hi \<le> rows a" "rows a \<le> length (peek s (base a))"
    and "hi \<le> rows b" "rows b \<le> length (peek s (base b))" "base a \<noteq> base b"
  shows "for_in (range_py (int lo) (int hi))
           (\<lambda>i s. and_then (setitem s a i (- 1)) (\<lambda>s. setitem s b i (- 1))) s
         = Inr (poke (poke s (base a) (mark 1 lo hi (peek s (base a))))
                  (base b) (mark 1 lo hi (peek s (base b))))"
  using assms(1,2,4)
proof (induction hi)
  case 0
  then show ?case by simp
next
  case (Suc hi)
  show ?case
  proof (cases "lo = Suc hi")
    case True
    then show ?thesis by simp
  next
    case False
    with Suc.prems have le: "lo \<le> hi" and lt: "hi < rows a" "hi < rows b" by simp_all
    with assms(3,5) have off: "hi * 1 < length (peek s (base a))" "hi * 1 < length (peek s (base b))"
      by simp_all
    let ?xs = "mark 1 lo hi (peek s (base a))" and ?ys = "mark 1 lo hi (peek s (base b))"
    have "poke (poke (poke (poke s (base a) ?xs) (base b) ?ys) (base a) (?xs[hi := - 1]))
             (base b) (?ys[hi := - 1])
          = poke (poke s (base a) (?xs[hi := - 1])) (base b) (?ys[hi := - 1])"
      using assms(6) by (cases "base a"; cases "base b") simp_all
    then show ?thesis
      unfolding for_in_snoc [OF le]
      using Suc.IH le lt mark_step [OF _ le off(1)] mark_step [OF _ le off(2)] assms(6)
      by (simp add: setitem_nat)
  qed
qed

lemma counts_poke [simp]:
  "num_nodes (poke s f xs) = num_nodes s" "num_edges (poke s f xs) = num_edges s"
  "num_vars (poke s f xs) = num_vars s" "num_args (poke s f xs) = num_args s"
  by (cases f; simp)+

lemma for_in_setitem_int:
  assumes "0 \<le> lo" "lo \<le> hi" "nat hi \<le> rows a" "rows a \<le> length (peek s (base a))"
  shows "for_in (range_py lo hi) (\<lambda>i s. setitem s a i (- 1)) s
         = Inr (poke s (base a) (mark 1 (nat lo) (nat hi) (peek s (base a))))"
  using for_in_setitem [of "nat lo" "nat hi" a s] assms by simp

lemma for_in_setitem2_int:
  assumes "0 < cols a" "0 \<le> lo" "lo \<le> hi" "nat hi \<le> rows a"
    "rows a * cols a \<le> length (peek s (base a))"
  shows "for_in (range_py lo hi) (\<lambda>i s. setitem2 s a i 0 (- 1)) s
         = Inr (poke s (base a) (mark (cols a) (nat lo) (nat hi) (peek s (base a))))"
  using for_in_setitem2 [of a "nat lo" "nat hi" s] assms by simp

lemma for_in_setitem_pair_int:
  assumes "0 \<le> lo" "lo \<le> hi" "nat hi \<le> rows a" "rows a \<le> length (peek s (base a))"
    and "nat hi \<le> rows b" "rows b \<le> length (peek s (base b))" "base a \<noteq> base b"
  shows "for_in (range_py lo hi)
           (\<lambda>i s. and_then (setitem s a i (- 1)) (\<lambda>s. setitem s b i (- 1))) s
         = Inr (poke (poke s (base a) (mark 1 (nat lo) (nat hi) (peek s (base a))))
                  (base b) (mark 1 (nat lo) (nat hi) (peek s (base b))))"
  using for_in_setitem_pair [of "nat lo" "nat hi" a s b] assms by simp

lemma views_simps:
  "base (nodes_o (views s)) = F_nodes" "rows (nodes_o (views s)) = length (nodes s)"
  "base (starter_o (views s)) = F_starter" "rows (starter_o (views s)) = length (starter s)"
  "base (edges_o (views s)) = F_edges" "rows (edges_o (views s)) = length (edges s) div 3"
  "cols (edges_o (views s)) = 3"
  "base (vars_in_scope_o (views s)) = F_vars_in_scope"
  "rows (vars_in_scope_o (views s)) = length (vars_in_scope s)"
  "base (args_in_scope_o (views s)) = F_args_in_scope"
  "rows (args_in_scope_o (views s)) = length (args_in_scope s) div 2"
  "cols (args_in_scope_o (views s)) = 2"
  "base (permitted_actions_o (views s)) = F_permitted_actions"
  "rows (permitted_actions_o (views s)) = length (permitted_actions s)"
  by (simp_all add: views_def)

lemma get_state_padded:
  assumes st: "state self = Some s" and f: "fits self s" and c: "counts_ok self s"
  shows "get_state self = Inr (self\<lparr>state := Some (padded self s)\<rparr>, views s)"
proof -
  let ?N = "nat (max_num_nodes self)" and ?V = "nat (max_num_vars self)"
  let ?E = "nat (max_num_nodes self * 3)"
  let ?n = "nat (num_nodes s)" and ?e = "nat (num_edges s)"
  let ?v = "nat (num_vars s)" and ?a = "nat (num_args s)"
  define s1 where "s1 = poke (poke s F_nodes (mark 1 ?n ?N (nodes s))) F_starter (mark 1 ?n ?N (starter s))"
  define s2 where "s2 = poke s1 F_edges (mark 3 ?e ?E (edges s))"
  define s3 where "s3 = poke s2 F_vars_in_scope (mark 1 ?v ?V (vars_in_scope s))"
  define s4 where "s4 = poke s3 F_args_in_scope (mark 2 ?a ?V (args_in_scope s))"
  have nn: "0 \<le> num_nodes s" "0 \<le> num_edges s" "0 \<le> num_vars s" "0 \<le> num_args s"
    and le: "num_nodes s \<le> max_num_nodes self" "num_edges s \<le> max_num_nodes self * 3"
      "num_vars s \<le> max_num_vars self" "num_args s \<le> max_num_vars self"
    using c by (simp_all add: counts_ok_def)
  have len: "length (nodes s) = ?N" "length (starter s) = ?N" "length (edges s) = 3 * ?E"
    "length (vars_in_scope s) = ?V" "length (args_in_scope s) = 2 * ?V"
    using f by (simp_all add: fits_def nat_mult_distrib)
  have cnt: "num_edges s1 = num_edges s" "num_vars s2 = num_vars s" "num_args s3 = num_args s"
    by (simp_all add: s1_def s2_def s3_def del: poke.simps)
  have pk: "edges s1 = edges s" "vars_in_scope s2 = vars_in_scope s"
    "args_in_scope s3 = args_in_scope s"
    by (simp_all add: s1_def s2_def s3_def)
  have l1: "for_in (range_py (num_nodes s) (max_num_nodes self))
              (\<lambda>i s'. and_then (setitem s' (nodes_o (views s)) i (- 1))
                        (\<lambda>s'. setitem s' (starter_o (views s)) i (- 1))) s = Inr s1"
    using for_in_setitem_pair_int [of "num_nodes s" "max_num_nodes self" "nodes_o (views s)" s
        "starter_o (views s)"] nn le len
    by (simp add: views_simps s1_def del: poke.simps)
  have l2: "for_in (range_py (num_edges s1) (max_num_nodes self * 3))
              (\<lambda>i s'. setitem2 s' (edges_o (views s)) i 0 (- 1)) s1 = Inr s2"
    using for_in_setitem2_int [of "edges_o (views s)" "num_edges s" "max_num_nodes self * 3" s1]
      nn le len
    by (simp add: views_simps cnt pk s2_def del: poke.simps)
  have l3: "for_in (range_py (num_vars s2) (max_num_vars self))
              (\<lambda>i s'. setitem s' (vars_in_scope_o (views s)) i (- 1)) s2 = Inr s3"
    using for_in_setitem_int [of "num_vars s" "max_num_vars self" "vars_in_scope_o (views s)" s2]
      nn le len
    by (simp add: views_simps cnt pk s3_def del: poke.simps)
  have l4: "for_in (range_py (num_args s3) (max_num_vars self))
              (\<lambda>i s'. setitem2 s' (args_in_scope_o (views s)) i 0 (- 1)) s3 = Inr s4"
    using for_in_setitem2_int [of "args_in_scope_o (views s)" "num_args s" "max_num_vars self" s3]
      nn le len
    by (simp add: views_simps cnt pk s4_def del: poke.simps)
  have "s4 = padded self s"
    by (simp add: padded_def s4_def s3_def s2_def s1_def)
  then show ?thesis
    using st l1 l2 l3 l4 by (simp add: get_state_def pad_states_def)
qed

lemma getitem_nat:
  "0 \<le> i \<Longrightarrow> nat i < rows a \<Longrightarrow> getitem m a i = Inr (peek m (base a) ! nat i)"
  by (simp add: getitem_def index_def nat_less_iff)

lemma getitem2_nat:
  "0 \<le> i \<Longrightarrow> nat i < rows a \<Longrightarrow> 0 \<le> j \<Longrightarrow> nat j < cols a \<Longrightarrow>
   getitem2 m a i j = Inr (peek m (base a) ! (nat i * cols a + nat j))"
  by (simp add: getitem2_def index_def nat_less_iff)

lemma padded_fields:
  "nodes (padded self s) = mark 1 (nat (num_nodes s)) (nat (max_num_nodes self)) (nodes s)"
  "starter (padded self s) = mark 1 (nat (num_nodes s)) (nat (max_num_nodes self)) (starter s)"
  "edges (padded self s) = mark 3 (nat (num_edges s)) (nat (max_num_nodes self * 3)) (edges s)"
  "vars_in_scope (padded self s)
     = mark 1 (nat (num_vars s)) (nat (max_num_vars self)) (vars_in_scope s)"
  "args_in_scope (padded self s)
     = mark 2 (nat (num_args s)) (nat (max_num_vars self)) (args_in_scope s)"
  "permitted_actions (padded self s) = permitted_actions s"
  "tests (padded self s) = tests s" "zast (padded self s) = zast s"
  "cursor (padded self s) = cursor s" "assignment (padded self s) = assignment s"
  "code (padded self s) = code s"
  "num_nodes (padded self s) = num_nodes s" "num_edges (padded self s) = num_edges s"
  "num_vars (padded self s) = num_vars s" "num_args (padded self s) = num_args s"
  "num_tests (padded self s) = num_tests s"
  by (simp_all add: padded_def)

lemma mark1_nth:
  "k < length xs \<Longrightarrow> mark (Suc 0) lo hi xs ! k = (if lo \<le> k \<and> k < hi then - 1 else xs ! k)"
  by (simp add: nth_mark)

lemma nat_between: "0 \<le> lo \<Longrightarrow> lo \<le> i \<and> i < hi \<Longrightarrow> nat lo \<le> nat i \<and> nat i < nat hi \<and> 0 \<le> i"
  by arith

lemma nat_below: "0 \<le> i \<and> i < n \<Longrightarrow> n \<le> hi \<Longrightarrow> \<not> nat n \<le> nat i \<and> nat i < nat hi"
  by arith

lemma markw_head:
  "0 < w \<Longrightarrow> r * w < length xs \<Longrightarrow>
   mark w lo hi xs ! (r * w) = (if lo \<le> r \<and> r < hi then - 1 else xs ! (r * w))"
  by (simp add: nth_mark)

lemma markw_live:
  "c < w \<Longrightarrow> r * w + c < length xs \<Longrightarrow> r < lo \<Longrightarrow> mark w lo hi xs ! (r * w + c) = xs ! (r * w + c)"
  by (simp add: nth_mark)


lemma for_break_skip:
  "\<forall>i \<in> set pre. test i s = Inr False \<Longrightarrow>
   for_break (pre @ post) test upd s = for_break post test upd s"
  by (induction pre) simp_all

lemma for_break_none:
  "\<forall>i \<in> set is. test i s = Inr False \<Longrightarrow> for_break is test upd s = Inr s"
  using for_break_skip [of "is" test s "[]" upd] by simp

lemma for_break_scan:
  assumes "k \<le> n" "\<forall>i<k. test (int i) s = Inr False" "k < n \<Longrightarrow> test (int k) s = Inr True"
  shows "for_break (range_py 0 (int n)) test upd s = Inr (if k < n then upd (int k) s else s)"
proof (cases "k < n")
  case True
  have pre: "\<forall>i \<in> set (range_py 0 (int k)). test i s = Inr False"
  proof
    fix i assume "i \<in> set (range_py 0 (int k))"
    then have "0 \<le> i" "nat i < k" by auto
    with assms(2) have "test (int (nat i)) s = Inr False" by blast
    with \<open>0 \<le> i\<close> show "test i s = Inr False" by simp
  qed
  have "range_py 0 (int n) = range_py 0 (int k) @ int k # range_py (int k + 1) (int n)"
    using True by (intro range_py_split) simp_all
  then show ?thesis
    using True assms(3)
      for_break_skip [of "range_py 0 (int k)" test s "int k # range_py (int k + 1) (int n)" upd] pre
    by simp
next
  case False
  with assms(1) have "k = n" by simp
  have "\<forall>i \<in> set (range_py 0 (int n)). test i s = Inr False"
  proof
    fix i assume "i \<in> set (range_py 0 (int n))"
    then have "0 \<le> i" "nat i < k" using \<open>k = n\<close> by auto
    with assms(2) have "test (int (nat i)) s = Inr False" by blast
    with \<open>0 \<le> i\<close> show "test i s = Inr False" by simp
  qed
  then show ?thesis
    using False by (simp add: for_break_none)
qed

lemma boundary_le: "boundary w n xs \<le> n"
  using length_takeWhile_le [of "\<lambda>k. xs ! (k * w) \<noteq> - 1" "[0..<n]"] by (simp add: boundary_def)

lemma boundary_before: "i < boundary w n xs \<Longrightarrow> xs ! (i * w) \<noteq> - 1"
proof -
  assume a: "i < boundary w n xs"
  let ?P = "\<lambda>k. xs ! (k * w) \<noteq> - 1"
  have "takeWhile ?P [0..<n] ! i \<in> set (takeWhile ?P [0..<n])"
    using a by (simp add: boundary_def)
  then have "?P (takeWhile ?P [0..<n] ! i)" by (rule set_takeWhileD [THEN conjunct2])
  moreover have "takeWhile ?P [0..<n] ! i = [0..<n] ! i"
    using a by (simp add: boundary_def takeWhile_nth)
  moreover have "i < n" using a boundary_le [of w n xs] by simp
  ultimately show ?thesis by simp
qed

lemma boundary_at: "boundary w n xs < n \<Longrightarrow> xs ! (boundary w n xs * w) = - 1"
proof -
  assume a: "boundary w n xs < n"
  let ?P = "\<lambda>k. xs ! (k * w) \<noteq> - 1"
  have "\<not> ?P ([0..<n] ! length (takeWhile ?P [0..<n]))"
    using a by (intro nth_length_takeWhile) (simp add: boundary_def)
  then show ?thesis using a by (simp add: boundary_def)
qed

lemma boundary_first:
  assumes "k \<le> n" "\<forall>i<k. xs ! (i * w) \<noteq> - 1" "k < n \<Longrightarrow> xs ! (k * w) = - 1"
  shows "boundary w n xs = k"
proof (rule ccontr)
  assume ne: "boundary w n xs \<noteq> k"
  show False
  proof (cases "boundary w n xs < k")
    case True
    then have "boundary w n xs < n" using assms(1) by simp
    from boundary_at [OF this] assms(2) True show False by blast
  next
    case False
    with ne have lt: "k < boundary w n xs" by simp
    then have "k < n" using boundary_le [of w n xs] by simp
    from assms(3) [OF this] boundary_before [OF lt] show False by simp
  qed
qed

lemma for_break_boundary:
  assumes t: "\<And>i. i < n \<Longrightarrow> test (int i) s = Inr (xs ! (i * w) = - 1)"
  shows "for_break (range_py 0 (int n)) test upd s
         = Inr (if boundary w n xs < n then upd (int (boundary w n xs)) s else s)"
proof (rule for_break_scan)
  show "boundary w n xs \<le> n" by (rule boundary_le)
  show "\<forall>i<boundary w n xs. test (int i) s = Inr False"
  proof (intro allI impI)
    fix i assume a: "i < boundary w n xs"
    then have "i < n" using boundary_le [of w n xs] by simp
    with t boundary_before [OF a] show "test (int i) s = Inr False" by simp
  qed
  show "test (int (boundary w n xs)) s = Inr True" if "boundary w n xs < n"
    using t [OF that] boundary_at [OF that] by simp
qed

lemma getitem_int: "i < rows a \<Longrightarrow> getitem m a (int i) = Inr (peek m (base a) ! i)"
  by (simp add: getitem_def)

lemma getitem2_int:
  "i < rows a \<Longrightarrow> 0 < cols a \<Longrightarrow> getitem2 m a (int i) 0 = Inr (peek m (base a) ! (i * cols a))"
  using index_nat [of 0 "cols a"] by (simp add: getitem2_def)

lemma slice_to_nat: "k \<le> rows a \<Longrightarrow> slice_to a (int k) = a\<lparr>rows := k\<rparr>"
  by (simp add: slice_to_def min_def)

lemma unpad_states_unpadded:
  assumes ok: "obs_ok self m st"
  shows "unpad_states self m st = Inr (unpadded self m st)"
proof -
  let ?N = "nat (max_num_nodes self)" and ?E = "nat (max_num_nodes self * 3)"
  let ?V = "nat (max_num_vars self)"
  define bn where "bn = boundary 1 ?N (peek m (base (nodes_o st)))"
  define be where "be = boundary 3 ?E (peek m (base (edges_o st)))"
  define bv where "bv = boundary 1 ?V (peek m (base (vars_in_scope_o st)))"
  define ba where "ba = boundary 2 ?V (peek m (base (args_in_scope_o st)))"
  define st1 where "st1 = st\<lparr>nodes_o := (nodes_o st)\<lparr>rows := bn\<rparr>,
                              starter_o := (starter_o st)\<lparr>rows := bn\<rparr>\<rparr>"
  define st2 where "st2 = st1\<lparr>edges_o := (edges_o st)\<lparr>rows := be\<rparr>\<rparr>"
  define st3 where "st3 = st2\<lparr>vars_in_scope_o := (vars_in_scope_o st)\<lparr>rows := bv\<rparr>\<rparr>"
  define st4 where "st4 = st3\<lparr>args_in_scope_o := (args_in_scope_o st)\<lparr>rows := ba\<rparr>\<rparr>"
  have caps: "max_num_nodes self = int ?N" "max_num_nodes self * 3 = int ?E"
    "max_num_vars self = int ?V"
    using ok by (simp_all add: obs_ok_def)
  have shp: "rows (nodes_o st) = ?N" "rows (starter_o st) = ?N" "rows (edges_o st) = ?E"
    "cols (edges_o st) = 3" "rows (vars_in_scope_o st) = ?V" "rows (args_in_scope_o st) = ?V"
    "cols (args_in_scope_o st) = 2"
    using ok by (simp_all add: obs_ok_def)
  have le: "bn \<le> ?N" "be \<le> ?E" "bv \<le> ?V" "ba \<le> ?V"
    by (simp_all add: bn_def be_def bv_def ba_def boundary_le)
  have l1: "for_break (range_py 0 (max_num_nodes self))
              (\<lambda>i st. and_then (getitem m (nodes_o st) i) (\<lambda>v. Inr (v = - 1)))
              (\<lambda>i st. st\<lparr>nodes_o := slice_to (nodes_o st) i,
                           starter_o := slice_to (starter_o st) i\<rparr>) st = Inr st1"
  proof -
    have "for_break (range_py 0 (int ?N))
              (\<lambda>i st. and_then (getitem m (nodes_o st) i) (\<lambda>v. Inr (v = - 1)))
              (\<lambda>i st. st\<lparr>nodes_o := slice_to (nodes_o st) i,
                           starter_o := slice_to (starter_o st) i\<rparr>) st
          = Inr (if bn < ?N
                 then st\<lparr>nodes_o := slice_to (nodes_o st) (int bn),
                         starter_o := slice_to (starter_o st) (int bn)\<rparr>
                 else st)"
      unfolding bn_def
      by (rule for_break_boundary) (simp add: getitem_int shp)
    moreover have "st\<lparr>nodes_o := slice_to (nodes_o st) (int bn),
                      starter_o := slice_to (starter_o st) (int bn)\<rparr> = st1"
      using le by (simp add: st1_def slice_to_nat shp)
    moreover have "bn = ?N \<Longrightarrow> st = st1"
      using shp(1,2) by (simp add: st1_def)
    ultimately show ?thesis using le(1) caps(1) by (cases "bn < ?N") simp_all
  qed
  have l2: "for_break (range_py 0 (max_num_nodes self * 3))
              (\<lambda>i st. and_then (getitem2 m (edges_o st) i 0) (\<lambda>v. Inr (v = - 1)))
              (\<lambda>i st. st\<lparr>edges_o := slice_to (edges_o st) i\<rparr>) st1 = Inr st2"
  proof -
    have "for_break (range_py 0 (int ?E))
              (\<lambda>i st. and_then (getitem2 m (edges_o st) i 0) (\<lambda>v. Inr (v = - 1)))
              (\<lambda>i st. st\<lparr>edges_o := slice_to (edges_o st) i\<rparr>) st1
          = Inr (if be < ?E then st1\<lparr>edges_o := slice_to (edges_o st1) (int be)\<rparr> else st1)"
      unfolding be_def
      by (rule for_break_boundary) (simp add: getitem2_int shp st1_def)
    moreover have "st1\<lparr>edges_o := slice_to (edges_o st1) (int be)\<rparr> = st2"
      using le by (simp add: st2_def st1_def slice_to_nat shp)
    moreover have "be = ?E \<Longrightarrow> st1 = st2"
      using shp(3) by (simp add: st2_def st1_def)
    ultimately show ?thesis using le(2) caps(2) by (cases "be < ?E") simp_all
  qed
  have l3: "for_break (range_py 0 (max_num_vars self))
              (\<lambda>i st. and_then (getitem m (vars_in_scope_o st) i) (\<lambda>v. Inr (v = - 1)))
              (\<lambda>i st. st\<lparr>vars_in_scope_o := slice_to (vars_in_scope_o st) i\<rparr>) st2 = Inr st3"
  proof -
    have "for_break (range_py 0 (int ?V))
              (\<lambda>i st. and_then (getitem m (vars_in_scope_o st) i) (\<lambda>v. Inr (v = - 1)))
              (\<lambda>i st. st\<lparr>vars_in_scope_o := slice_to (vars_in_scope_o st) i\<rparr>) st2
          = Inr (if bv < ?V then st2\<lparr>vars_in_scope_o := slice_to (vars_in_scope_o st2) (int bv)\<rparr>
                 else st2)"
      unfolding bv_def
      by (rule for_break_boundary) (simp add: getitem_int shp st1_def st2_def)
    moreover have "st2\<lparr>vars_in_scope_o := slice_to (vars_in_scope_o st2) (int bv)\<rparr> = st3"
      using le by (simp add: st3_def st2_def st1_def slice_to_nat shp)
    moreover have "bv = ?V \<Longrightarrow> st2 = st3"
      using shp(5) by (simp add: st3_def st2_def st1_def)
    ultimately show ?thesis using le(3) caps(3) by (cases "bv < ?V") simp_all
  qed
  have l4: "for_break (range_py 0 (max_num_vars self))
              (\<lambda>i st. and_then (getitem2 m (args_in_scope_o st) i 0) (\<lambda>v. Inr (v = - 1)))
              (\<lambda>i st. st\<lparr>args_in_scope_o := slice_to (args_in_scope_o st) i\<rparr>) st3 = Inr st4"
  proof -
    have "for_break (range_py 0 (int ?V))
              (\<lambda>i st. and_then (getitem2 m (args_in_scope_o st) i 0) (\<lambda>v. Inr (v = - 1)))
              (\<lambda>i st. st\<lparr>args_in_scope_o := slice_to (args_in_scope_o st) i\<rparr>) st3
          = Inr (if ba < ?V then st3\<lparr>args_in_scope_o := slice_to (args_in_scope_o st3) (int ba)\<rparr>
                 else st3)"
      unfolding ba_def
      by (rule for_break_boundary) (simp add: getitem2_int shp st1_def st2_def st3_def)
    moreover have "st3\<lparr>args_in_scope_o := slice_to (args_in_scope_o st3) (int ba)\<rparr> = st4"
      using le by (simp add: st4_def st3_def st2_def st1_def slice_to_nat shp)
    moreover have "ba = ?V \<Longrightarrow> st3 = st4"
      using shp(6) by (simp add: st4_def st3_def st2_def st1_def)
    ultimately show ?thesis using le(4) caps(3) by (cases "ba < ?V") simp_all
  qed
  have "st4 = unpadded self m st"
    by (simp add: unpadded_def st4_def st3_def st2_def st1_def bn_def be_def bv_def ba_def Let_def)
  then show ?thesis
    using l1 l2 l3 l4 by (simp add: unpad_states_def)
qed

lemma mark_below: "k < lo * w \<Longrightarrow> k < length xs \<Longrightarrow> mark w lo hi xs ! k = xs ! k"
proof -
  assume a: "k < lo * w" "k < length xs"
  then have "0 < w" by (cases w) simp_all
  with a(1) have "k div w < lo" by (simp add: less_mult_imp_div_less)
  with a(2) show ?thesis by (simp add: nth_mark)
qed

lemma take_mark_below: "n \<le> lo * w \<Longrightarrow> take n (mark w lo hi xs) = take n xs"
  by (rule nth_equalityI) (simp_all add: mark_below)

lemma row_mark_below:
  assumes "r < lo"
  shows "take w (drop (r * w) (mark w lo hi xs)) = take w (drop (r * w) xs)"
proof -
  have "w + r * w \<le> lo * w"
    using assms by (metis Suc_leI mult_Suc mult_le_mono1)
  then have "take (w + r * w) (mark w lo hi xs) = take (w + r * w) xs"
    by (rule take_mark_below)
  then show ?thesis by (simp add: take_drop)
qed

lemma mark_idem: "mark w lo hi (mark w lo hi xs) = mark w lo hi xs"
  by (rule nth_equalityI) (simp_all add: nth_mark)

lemma fits_padded: "fits self s \<Longrightarrow> fits (self\<lparr>state := x\<rparr>) (padded self s)"
  by (simp add: fits_def padded_fields)

lemma counts_ok_padded: "counts_ok self s \<Longrightarrow> counts_ok (self\<lparr>state := x\<rparr>) (padded self s)"
  by (simp add: counts_ok_def padded_fields)

lemma views_padded: "views (padded self s) = views s"
  by (simp add: views_def padded_fields)

lemma padded_idem: "padded (self\<lparr>state := x\<rparr>) (padded self s) = padded self s"
  by (simp add: padded_def mark_idem)

lemma obs_ok_views:
  "fits self s \<Longrightarrow> obs_ok (self\<lparr>state := x\<rparr>) (padded self s) (views s)"
  by (simp add: obs_ok_def fits_def views_simps padded_fields nat_mult_distrib)

lemma boundary_mark:
  assumes "0 < w" "lo \<le> hi" "hi * w \<le> length xs" "\<forall>i<lo. xs ! (i * w) \<noteq> - 1"
  shows "boundary w hi (mark w lo hi xs) = lo"
proof (rule boundary_first)
  show "lo \<le> hi" by fact
  show "\<forall>i<lo. mark w lo hi xs ! (i * w) \<noteq> - 1"
  proof (intro allI impI)
    fix i assume i: "i < lo"
    then have "i * w < lo * w" using assms(1) by simp
    moreover have "lo * w \<le> hi * w" using assms(2) by simp
    ultimately have "i * w < lo * w" "i * w < length xs"
      using assms(3) by linarith+
    then have "mark w lo hi xs ! (i * w) = xs ! (i * w)"
      by (rule mark_below)
    with assms(4) i show "mark w lo hi xs ! (i * w) \<noteq> - 1" by simp
  qed
  show "mark w lo hi xs ! (lo * w) = - 1" if "lo < hi"
  proof -
    have "lo * w < hi * w" using that assms(1) by simp
    with assms(3) have "lo * w < length xs" by linarith
    with that assms(1) show ?thesis by (simp add: nth_mark)
  qed
qed

lemma unpadded_fields:
  "nodes_o (unpadded self m st)
     = (nodes_o st)\<lparr>rows := boundary 1 (nat (max_num_nodes self)) (peek m (base (nodes_o st)))\<rparr>"
  "starter_o (unpadded self m st)
     = (starter_o st)\<lparr>rows := boundary 1 (nat (max_num_nodes self)) (peek m (base (nodes_o st)))\<rparr>"
  "edges_o (unpadded self m st)
     = (edges_o st)\<lparr>rows := boundary 3 (nat (max_num_nodes self * 3)) (peek m (base (edges_o st)))\<rparr>"
  "vars_in_scope_o (unpadded self m st)
     = (vars_in_scope_o st)\<lparr>rows :=
         boundary 1 (nat (max_num_vars self)) (peek m (base (vars_in_scope_o st)))\<rparr>"
  "args_in_scope_o (unpadded self m st)
     = (args_in_scope_o st)\<lparr>rows :=
         boundary 2 (nat (max_num_vars self)) (peek m (base (args_in_scope_o st)))\<rparr>"
  "permitted_actions_o (unpadded self m st) = permitted_actions_o st"
  "cursor_position (unpadded self m st) = cursor_position st"
  "assignment_o (unpadded self m st) = assignment_o st"
  by (simp_all add: unpadded_def Let_def)

lemma unpadded_state [simp]: "unpadded (self\<lparr>state := x\<rparr>) m st = unpadded self m st"
  by (simp add: unpadded_def)

lemma rows_of_take:
  "n \<le> rows a \<Longrightarrow> rows_of m (a\<lparr>rows := n\<rparr>) = take n (rows_of m a)"
  by (simp add: rows_of_def row_def take_map)

lemma no_sentinel_nth:
  assumes "\<forall>i. 0 \<le> i \<and> i < int n \<longrightarrow> getitem m a i \<noteq> Inr (- 1)" "n \<le> rows a"
  shows "\<forall>i<n. peek m (base a) ! (i * 1) \<noteq> - 1"
proof (intro allI impI)
  fix i assume "i < n"
  with assms(1) have "getitem m a (int i) \<noteq> Inr (- 1)" by simp
  moreover have "getitem m a (int i) = Inr (peek m (base a) ! i)"
    using \<open>i < n\<close> assms(2) by (intro getitem_int) simp
  ultimately show "peek m (base a) ! (i * 1) \<noteq> - 1" by simp
qed

lemma no_sentinel_nth2:
  assumes "\<forall>i. 0 \<le> i \<and> i < int n \<longrightarrow> getitem2 m a i 0 \<noteq> Inr (- 1)" "n \<le> rows a"
    "0 < cols a"
  shows "\<forall>i<n. peek m (base a) ! (i * cols a) \<noteq> - 1"
proof (intro allI impI)
  fix i assume "i < n"
  with assms(1) have "getitem2 m a (int i) 0 \<noteq> Inr (- 1)" by simp
  moreover have "getitem2 m a (int i) 0 = Inr (peek m (base a) ! (i * cols a))"
    using \<open>i < n\<close> assms(2,3) by (intro getitem2_int) simp_all
  ultimately show "peek m (base a) ! (i * cols a) \<noteq> - 1" by simp
qed

lemma boundary_full: "\<forall>i<n. xs ! (i * w) \<noteq> - 1 \<Longrightarrow> boundary w n xs = n"
  by (rule boundary_first) simp_all

lemma same_rows: "rows a = n \<Longrightarrow> a\<lparr>rows := n\<rparr> = a"
  by simp

lemma unpad_keeps_nodes:
  assumes ok: "obs_ok self m st"
    and no: "\<forall>i. 0 \<le> i \<and> i < max_num_nodes self \<longrightarrow> getitem m (nodes_o st) i \<noteq> Inr (- 1)"
  shows "nodes_o (unpadded self m st) = nodes_o st" "starter_o (unpadded self m st) = starter_o st"
proof -
  let ?N = "nat (max_num_nodes self)"
  have r: "rows (nodes_o st) = ?N" "rows (starter_o st) = ?N" "int ?N = max_num_nodes self"
    using ok by (simp_all add: obs_ok_def)
  have "\<forall>i<?N. peek m (base (nodes_o st)) ! (i * 1) \<noteq> - 1"
    using no r by (intro no_sentinel_nth) simp_all
  then have "boundary 1 ?N (peek m (base (nodes_o st))) = ?N" by (rule boundary_full)
  then show "nodes_o (unpadded self m st) = nodes_o st"
    "starter_o (unpadded self m st) = starter_o st"
    using r by (simp_all add: unpadded_fields)
qed

lemma unpad_keeps_edges:
  assumes ok: "obs_ok self m st"
    and no: "\<forall>i. 0 \<le> i \<and> i < max_num_nodes self * 3 \<longrightarrow> getitem2 m (edges_o st) i 0 \<noteq> Inr (- 1)"
  shows "edges_o (unpadded self m st) = edges_o st"
proof -
  let ?E = "nat (max_num_nodes self * 3)"
  have r: "rows (edges_o st) = ?E" "cols (edges_o st) = 3" "int ?E = max_num_nodes self * 3"
    using ok by (simp_all add: obs_ok_def)
  have "\<forall>i<?E. peek m (base (edges_o st)) ! (i * cols (edges_o st)) \<noteq> - 1"
    using no r by (intro no_sentinel_nth2) simp_all
  then have "boundary 3 ?E (peek m (base (edges_o st))) = ?E"
    unfolding r(2) by (rule boundary_full)
  then show ?thesis using r by (simp add: unpadded_fields)
qed

lemma unpad_keeps_vars:
  assumes ok: "obs_ok self m st"
    and no: "\<forall>i. 0 \<le> i \<and> i < max_num_vars self \<longrightarrow>
               getitem m (vars_in_scope_o st) i \<noteq> Inr (- 1)"
  shows "vars_in_scope_o (unpadded self m st) = vars_in_scope_o st"
proof -
  let ?V = "nat (max_num_vars self)"
  have r: "rows (vars_in_scope_o st) = ?V" "int ?V = max_num_vars self"
    using ok by (simp_all add: obs_ok_def)
  have "\<forall>i<?V. peek m (base (vars_in_scope_o st)) ! (i * 1) \<noteq> - 1"
    using no r by (intro no_sentinel_nth) simp_all
  then have "boundary 1 ?V (peek m (base (vars_in_scope_o st))) = ?V" by (rule boundary_full)
  then show ?thesis using r by (simp add: unpadded_fields)
qed

lemma unpad_keeps_args:
  assumes ok: "obs_ok self m st"
    and no: "\<forall>i. 0 \<le> i \<and> i < max_num_vars self \<longrightarrow>
               getitem2 m (args_in_scope_o st) i 0 \<noteq> Inr (- 1)"
  shows "args_in_scope_o (unpadded self m st) = args_in_scope_o st"
proof -
  let ?V = "nat (max_num_vars self)"
  have r: "rows (args_in_scope_o st) = ?V" "cols (args_in_scope_o st) = 2"
    "int ?V = max_num_vars self"
    using ok by (simp_all add: obs_ok_def)
  have "\<forall>i<?V. peek m (base (args_in_scope_o st)) ! (i * cols (args_in_scope_o st)) \<noteq> - 1"
    using no r by (intro no_sentinel_nth2) simp_all
  then have "boundary 2 ?V (peek m (base (args_in_scope_o st))) = ?V"
    unfolding r(2) by (rule boundary_full)
  then show ?thesis using r by (simp add: unpadded_fields)
qed

lemma full_nodes_roundtrip:
  assumes st: "state self = Some s" and f: "fits self s" and c: "counts_ok self s"
    and full: "num_nodes s = max_num_nodes self" and live: "\<forall>i<length (nodes s). 0 \<le> nodes s ! i"
  shows "\<exists>self' s' ob ob'.
      pad_states self (views s) = Inr (self', ob) \<and> state self' = Some s' \<and>
      (\<forall>i. 0 \<le> i \<and> i < max_num_nodes self \<longrightarrow> getitem s' (nodes_o ob) i \<noteq> Inr (- 1)) \<and>
      unpad_states self' s' ob = Inr ob' \<and> nodes_o ob' = nodes_o ob \<and>
      rows (nodes_o ob') = nat (max_num_nodes self) \<and> elems s' (nodes_o ob') = nodes s"
proof -
  let ?p = "padded self s" and ?self' = "self\<lparr>state := Some (padded self s)\<rparr>"
  let ?N = "nat (max_num_nodes self)"
  have len: "length (nodes s) = ?N" "0 \<le> max_num_nodes self"
    using f by (simp_all add: fits_def)
  have r1: "pad_states self (views s) = Inr (?self', views s)"
    using get_state_padded [OF st f c] st by (simp add: get_state_def)
  have ok: "obs_ok ?self' ?p (views s)" by (rule obs_ok_views [OF f])
  have r2: "unpad_states ?self' ?p (views s) = Inr (unpadded self ?p (views s))"
    using unpad_states_unpadded [OF ok] by simp
  have same: "nodes ?p = nodes s"
    using full by (simp add: padded_fields)
  have no: "getitem ?p (nodes_o (views s)) i \<noteq> Inr (- 1)"
    if "0 \<le> i \<and> i < max_num_nodes self" for i
  proof -
    have k: "nat i < ?N" using that by arith
    then have "getitem ?p (nodes_o (views s)) i = Inr (nodes s ! nat i)"
      using that len by (subst getitem_nat) (simp_all add: views_simps same)
    moreover have "0 \<le> nodes s ! nat i" using live k len by simp
    ultimately show ?thesis by simp
  qed
  then have no': "\<forall>i. 0 \<le> i \<and> i < max_num_nodes ?self' \<longrightarrow>
                   getitem ?p (nodes_o (views s)) i \<noteq> Inr (- 1)" by simp
  have keep: "nodes_o (unpadded self ?p (views s)) = nodes_o (views s)"
    using unpad_keeps_nodes(1) [OF ok no'] by simp
  have "elems ?p (nodes_o (views s)) = nodes s"
    using len by (simp add: elems_def views_simps same)
  with r1 r2 no keep len show ?thesis
    by (intro exI [of _ ?self'] exI [of _ ?p] exI [of _ "views s"]
          exI [of _ "unpadded self ?p (views s)"]) (simp add: views_simps)
qed

lemma first_sentinel_boundary:
  assumes "0 \<le> k" "k < int n" "n \<le> rows a" "getitem m a k = Inr (- 1)"
    "\<forall>i. 0 \<le> i \<and> i < k \<longrightarrow> getitem m a i \<noteq> Inr (- 1)"
  shows "boundary 1 n (peek m (base a)) = nat k"
proof (rule boundary_first)
  show "nat k \<le> n" using assms(1,2) by simp
  show "\<forall>i<nat k. peek m (base a) ! (i * 1) \<noteq> - 1"
  proof (rule no_sentinel_nth)
    show "\<forall>i. 0 \<le> i \<and> i < int (nat k) \<longrightarrow> getitem m a i \<noteq> Inr (- 1)"
      using assms(1,5) by simp
    show "nat k \<le> rows a" using assms(1,2,3) by simp
  qed
  have "getitem m a k = Inr (peek m (base a) ! nat k)"
    using assms(1,2,3) by (intro getitem_nat) simp_all
  with assms(4) show "peek m (base a) ! (nat k * 1) = - 1" by simp
qed

lemma peek_starter_upd:
  "peek (m\<lparr>starter := xs\<rparr>) f = (if f = F_starter then xs else peek m f)"
  by (cases f) simp_all

lemma length_peek_starter_upd:
  "length xs = length (starter m) \<Longrightarrow> length (peek (m\<lparr>starter := xs\<rparr>) f) = length (peek m f)"
  by (cases f) simp_all

lemma obs_ok_starter_upd:
  "obs_ok self m st \<Longrightarrow> length xs = length (starter m) \<Longrightarrow> obs_ok self (m\<lparr>starter := xs\<rparr>) st"
  by (simp add: obs_ok_def length_peek_starter_upd)

lemma unpadded_starter_upd:
  "base (nodes_o st) \<noteq> F_starter \<Longrightarrow> base (edges_o st) \<noteq> F_starter \<Longrightarrow>
   base (vars_in_scope_o st) \<noteq> F_starter \<Longrightarrow> base (args_in_scope_o st) \<noteq> F_starter \<Longrightarrow>
   unpadded self (m\<lparr>starter := xs\<rparr>) st = unpadded self m st"
  by (simp add: unpadded_def peek_starter_upd)

lemma int_lt2: "0 \<le> i \<and> i < (2::int) \<Longrightarrow> i = 0 \<or> i = 1"
  by arith

lemma ok_ex: "obs_ok env_ex s_ex (views s_ex)" "obs_ok env_ex s_pad (views s_ex)"
  "obs_ok env_ex s_full (views s_ex)"
  by (simp_all add: obs_ok_def env_ex_def s_ex_def s_pad_def s_full_def views_simps)

lemma no_sentinel_getitem:
  assumes "rows a = n" "\<forall>k<n. peek m (base a) ! k \<noteq> - 1"
  shows "\<forall>i. 0 \<le> i \<and> i < int n \<longrightarrow> getitem m a i \<noteq> Inr (- 1)"
proof (intro allI impI)
  fix i assume i: "0 \<le> i \<and> i < int n"
  then have k: "nat i < n" by arith
  then have "getitem m a i = Inr (peek m (base a) ! nat i)"
    using i assms(1) by (intro getitem_nat) simp_all
  with assms(2) k show "getitem m a i \<noteq> Inr (- 1)" by simp
qed

lemma no_sentinel_getitem2:
  assumes "rows a = n" "0 < cols a" "\<forall>k<n. peek m (base a) ! (k * cols a) \<noteq> - 1"
  shows "\<forall>i. 0 \<le> i \<and> i < int n \<longrightarrow> getitem2 m a i 0 \<noteq> Inr (- 1)"
proof (intro allI impI)
  fix i assume i: "0 \<le> i \<and> i < int n"
  then have k: "nat i < n" by arith
  then have "getitem2 m a i 0 = Inr (peek m (base a) ! (nat i * cols a + nat 0))"
    using i assms(1,2) by (intro getitem2_nat) simp_all
  with assms(3) k show "getitem2 m a i 0 \<noteq> Inr (- 1)" by simp
qed

lemma padded_ex: "padded env_ex s_ex = s_pad"
  by (simp add: padded_def s_pad_def env_ex_def s_ex_def mark_def upt_rec)

lemma ex_ok: "state env_ex = Some s_ex" "fits env_ex s_ex" "counts_ok env_ex s_ex"
  by (simp_all add: env_ex_def s_ex_def fits_def counts_ok_def)

lemma mark_off_marker:
  "k < length xs \<Longrightarrow> k mod w \<noteq> 0 \<Longrightarrow> mark w lo hi xs ! k = xs ! k"
  by (simp add: nth_mark)

lemma concat_rows:
  "length xs = n * w \<Longrightarrow> concat (map (\<lambda>r. take w (drop (r * w) xs)) [0..<n]) = xs"
proof (induction n arbitrary: xs)
  case 0
  then show ?case by simp
next
  case (Suc n)
  have "length (drop w xs) = n * w" using Suc.prems by simp
  then have "concat (map (\<lambda>r. take w (drop (r * w) (drop w xs))) [0..<n]) = drop w xs"
    by (rule Suc.IH)
  then have "concat (map (\<lambda>r. take w (drop (Suc r * w) xs)) [0..<n]) = drop w xs"
    by (simp add: add.commute)
  then show ?case
    by (simp add: map_upt_Suc del: upt_Suc)
qed

section \<open>The encoder\<close>

text \<open>
  Claim C2. For a record of the environment's layout whose counts lie within the
  capacities, \<^verbatim>\<open>pad_states\<close> on the views of the record returns, and afterwards
  \<open>nodes[i]\<close> and \<open>starter[i]\<close> read \<open>-1\<close> for every \<open>i\<close> from \<open>num_nodes\<close> to
  \<open>max_num_nodes\<close>, \<open>edges[i][0]\<close> reads \<open>-1\<close> from \<open>num_edges\<close> to
  \<open>3 * max_num_nodes\<close>, \<open>vars_in_scope[i]\<close> reads \<open>-1\<close> from \<open>num_vars\<close> to
  \<open>max_num_vars\<close>, \<open>args_in_scope[i][0]\<close> reads \<open>-1\<close> from \<open>num_args\<close> to
  \<open>max_num_vars\<close>, and every position below the count (every column of such a row) reads
  the value the record held before.
\<close>

theorem pad_states_sentinels:
  assumes st: "state self = Some s" and f: "fits self s" and c: "counts_ok self s"
  shows "\<exists>s'. pad_states self (views s) = Inr (self\<lparr>state := Some s'\<rparr>, views s) \<and>
    (\<forall>i. num_nodes s \<le> i \<and> i < max_num_nodes self \<longrightarrow>
       getitem s' (nodes_o (views s)) i = Inr (- 1) \<and>
       getitem s' (starter_o (views s)) i = Inr (- 1)) \<and>
    (\<forall>i. num_edges s \<le> i \<and> i < max_num_nodes self * 3 \<longrightarrow>
       getitem2 s' (edges_o (views s)) i 0 = Inr (- 1)) \<and>
    (\<forall>i. num_vars s \<le> i \<and> i < max_num_vars self \<longrightarrow>
       getitem s' (vars_in_scope_o (views s)) i = Inr (- 1)) \<and>
    (\<forall>i. num_args s \<le> i \<and> i < max_num_vars self \<longrightarrow>
       getitem2 s' (args_in_scope_o (views s)) i 0 = Inr (- 1)) \<and>
    (\<forall>i. 0 \<le> i \<and> i < num_nodes s \<longrightarrow>
       getitem s' (nodes_o (views s)) i = Inr (nodes s ! nat i) \<and>
       getitem s' (starter_o (views s)) i = Inr (starter s ! nat i)) \<and>
    (\<forall>i j. 0 \<le> i \<and> i < num_edges s \<and> 0 \<le> j \<and> j < 3 \<longrightarrow>
       getitem2 s' (edges_o (views s)) i j = Inr (edges s ! (nat i * 3 + nat j))) \<and>
    (\<forall>i. 0 \<le> i \<and> i < num_vars s \<longrightarrow>
       getitem s' (vars_in_scope_o (views s)) i = Inr (vars_in_scope s ! nat i)) \<and>
    (\<forall>i j. 0 \<le> i \<and> i < num_args s \<and> 0 \<le> j \<and> j < 2 \<longrightarrow>
       getitem2 s' (args_in_scope_o (views s)) i j = Inr (args_in_scope s ! (nat i * 2 + nat j)))"
proof -
  let ?p = "padded self s"
  have nn: "0 \<le> num_nodes s" "0 \<le> num_edges s" "0 \<le> num_vars s" "0 \<le> num_args s"
    and le: "num_nodes s \<le> max_num_nodes self" "num_edges s \<le> max_num_nodes self * 3"
      "num_vars s \<le> max_num_vars self" "num_args s \<le> max_num_vars self"
    using c by (simp_all add: counts_ok_def)
  have len: "length (nodes s) = nat (max_num_nodes self)"
    "length (starter s) = nat (max_num_nodes self)"
    "length (edges s) = 3 * nat (max_num_nodes self * 3)"
    "length (vars_in_scope s) = nat (max_num_vars self)"
    "length (args_in_scope s) = 2 * nat (max_num_vars self)"
    using f by (simp_all add: fits_def nat_mult_distrib)
  have run: "pad_states self (views s) = Inr (self\<lparr>state := Some ?p\<rparr>, views s)"
    using get_state_padded [OF st f c] st by (simp add: get_state_def)
  have a1: "getitem ?p (nodes_o (views s)) i = Inr (- 1) \<and>
            getitem ?p (starter_o (views s)) i = Inr (- 1)"
    if "num_nodes s \<le> i \<and> i < max_num_nodes self" for i
    using nat_between [OF _ that] nn len
    by (simp add: getitem_nat views_simps padded_fields mark1_nth)
  have a2: "getitem2 ?p (edges_o (views s)) i 0 = Inr (- 1)"
    if "num_edges s \<le> i \<and> i < max_num_nodes self * 3" for i
    using nat_between [OF _ that] nn len
    by (simp add: getitem2_nat views_simps padded_fields markw_head)
  have a3: "getitem ?p (vars_in_scope_o (views s)) i = Inr (- 1)"
    if "num_vars s \<le> i \<and> i < max_num_vars self" for i
    using nat_between [OF _ that] nn len
    by (simp add: getitem_nat views_simps padded_fields mark1_nth)
  have a4: "getitem2 ?p (args_in_scope_o (views s)) i 0 = Inr (- 1)"
    if "num_args s \<le> i \<and> i < max_num_vars self" for i
    using nat_between [OF _ that] nn len
    by (simp add: getitem2_nat views_simps padded_fields markw_head)
  have b1: "getitem ?p (nodes_o (views s)) i = Inr (nodes s ! nat i) \<and>
            getitem ?p (starter_o (views s)) i = Inr (starter s ! nat i)"
    if "0 \<le> i \<and> i < num_nodes s" for i
    using nat_below [OF that le(1)] that len
    by (simp add: getitem_nat views_simps padded_fields mark1_nth)
  have b2: "getitem2 ?p (edges_o (views s)) i j = Inr (edges s ! (nat i * 3 + nat j))"
    if "0 \<le> i \<and> i < num_edges s \<and> 0 \<le> j \<and> j < 3" for i j
  proof -
    have k: "nat i < nat (max_num_nodes self * 3)" "nat j < 3" "nat i < nat (num_edges s)"
      using that le by arith+
    have "nat i * 3 + nat j < length (edges s)"
      using k unfolding len by arith
    then have m: "mark 3 (nat (num_edges s)) (nat (max_num_nodes self * 3)) (edges s)
                    ! (nat i * 3 + nat j) = edges s ! (nat i * 3 + nat j)"
      using k by (intro markw_live)
    have "getitem2 ?p (edges_o (views s)) i j = Inr (edges ?p ! (nat i * 3 + nat j))"
      using that k(1,2) by (subst getitem2_nat) (simp_all add: views_simps len)
    then show ?thesis
      using m by (simp add: padded_fields)
  qed
  have b3: "getitem ?p (vars_in_scope_o (views s)) i = Inr (vars_in_scope s ! nat i)"
    if "0 \<le> i \<and> i < num_vars s" for i
    using nat_below [OF that le(3)] that len
    by (simp add: getitem_nat views_simps padded_fields mark1_nth)
  have b4: "getitem2 ?p (args_in_scope_o (views s)) i j = Inr (args_in_scope s ! (nat i * 2 + nat j))"
    if "0 \<le> i \<and> i < num_args s \<and> 0 \<le> j \<and> j < 2" for i j
  proof -
    have k: "nat i < nat (max_num_vars self)" "nat j < 2" "nat i < nat (num_args s)"
      using that le by arith+
    have "nat i * 2 + nat j < length (args_in_scope s)"
      using k unfolding len by arith
    then have m: "mark 2 (nat (num_args s)) (nat (max_num_vars self)) (args_in_scope s)
                    ! (nat i * 2 + nat j) = args_in_scope s ! (nat i * 2 + nat j)"
      using k by (intro markw_live)
    have "getitem2 ?p (args_in_scope_o (views s)) i j
            = Inr (args_in_scope ?p ! (nat i * 2 + nat j))"
      using that k(1,2) by (subst getitem2_nat) (simp_all add: views_simps len)
    then show ?thesis
      using m by (simp add: padded_fields)
  qed
  from run a1 a2 a3 a4 b1 b2 b3 b4 show ?thesis by blast
qed

text \<open>The theorem at the example environment: one live node and one live edge.\<close>

theorem pad_states_sentinels_witness:
  "state env_ex = Some s_ex \<and> fits env_ex s_ex \<and> counts_ok env_ex s_ex \<and>
   (\<exists>s'. pad_states env_ex (views s_ex) = Inr (env_ex\<lparr>state := Some s'\<rparr>, views s_ex) \<and>
      getitem s' (nodes_o (views s_ex)) 1 = Inr (- 1) \<and>
      getitem s' (nodes_o (views s_ex)) 0 = Inr 3 \<and>
      getitem2 s' (edges_o (views s_ex)) 5 0 = Inr (- 1) \<and>
      getitem2 s' (edges_o (views s_ex)) 0 2 = Inr 2)"
proof -
  have h: "state env_ex = Some s_ex" "fits env_ex s_ex" "counts_ok env_ex s_ex"
    by (simp_all add: env_ex_def s_ex_def fits_def counts_ok_def)
  have n: "num_nodes s_ex = 1" "num_edges s_ex = 1" "max_num_nodes env_ex = 2"
    "nodes s_ex ! nat 0 = 3" "edges s_ex ! (nat 0 * 3 + nat 2) = 2"
    by (simp_all add: env_ex_def s_ex_def)
  from pad_states_sentinels [OF h] obtain s' where
    r: "pad_states env_ex (views s_ex) = Inr (env_ex\<lparr>state := Some s'\<rparr>, views s_ex)"
    and a: "\<forall>i. num_nodes s_ex \<le> i \<and> i < max_num_nodes env_ex \<longrightarrow>
       getitem s' (nodes_o (views s_ex)) i = Inr (- 1) \<and>
       getitem s' (starter_o (views s_ex)) i = Inr (- 1)"
    and b: "\<forall>i. num_edges s_ex \<le> i \<and> i < max_num_nodes env_ex * 3 \<longrightarrow>
       getitem2 s' (edges_o (views s_ex)) i 0 = Inr (- 1)"
    and c: "\<forall>i. 0 \<le> i \<and> i < num_nodes s_ex \<longrightarrow>
       getitem s' (nodes_o (views s_ex)) i = Inr (nodes s_ex ! nat i) \<and>
       getitem s' (starter_o (views s_ex)) i = Inr (starter s_ex ! nat i)"
    and d: "\<forall>i j. 0 \<le> i \<and> i < num_edges s_ex \<and> 0 \<le> j \<and> j < 3 \<longrightarrow>
       getitem2 s' (edges_o (views s_ex)) i j = Inr (edges s_ex ! (nat i * 3 + nat j))"
    by blast
  have "getitem s' (nodes_o (views s_ex)) 1 = Inr (- 1)" using a [rule_format, of 1] n by simp
  moreover have "getitem s' (nodes_o (views s_ex)) 0 = Inr 3" using c [rule_format, of 0] n by simp
  moreover have "getitem2 s' (edges_o (views s_ex)) 5 0 = Inr (- 1)"
    using b [rule_format, of 5] n by simp
  moreover have "getitem2 s' (edges_o (views s_ex)) 0 2 = Inr 2"
    using d [rule_format, of 0 2] n by simp
  ultimately show ?thesis using h r by blast
qed

text \<open>
  Claim C9. Padding is idempotent: for a record of the environment's layout whose counts
  lie within the capacities, \<^verbatim>\<open>pad_states\<close> returns, and \<^verbatim>\<open>pad_states\<close> applied
  again to the environment and the observation it returned (the counts are the same)
  returns them unchanged: no entry of any array differs.
\<close>

theorem pad_states_idempotent:
  assumes st: "state self = Some s" and f: "fits self s" and c: "counts_ok self s"
  shows "\<exists>self' ob. pad_states self (views s) = Inr (self', ob) \<and>
                    pad_states self' ob = Inr (self', ob)"
proof -
  let ?self' = "self\<lparr>state := Some (padded self s)\<rparr>"
  have r1: "pad_states self (views s) = Inr (?self', views s)"
    using get_state_padded [OF st f c] st by (simp add: get_state_def)
  have "get_state ?self' = Inr (?self'\<lparr>state := Some (padded ?self' (padded self s))\<rparr>,
          views (padded self s))"
    by (rule get_state_padded) (simp_all add: fits_padded [OF f] counts_ok_padded [OF c])
  then have "pad_states ?self' (views s) = Inr (?self', views s)"
    by (simp add: get_state_def views_padded padded_idem)
  with r1 show ?thesis by blast
qed

text \<open>The theorem at the example environment.\<close>

theorem pad_states_idempotent_witness:
  "state env_ex = Some s_ex \<and> fits env_ex s_ex \<and> counts_ok env_ex s_ex \<and>
   (\<exists>self' ob. pad_states env_ex (views s_ex) = Inr (self', ob) \<and>
               pad_states self' ob = Inr (self', ob))"
proof -
  have h: "state env_ex = Some s_ex" "fits env_ex s_ex" "counts_ok env_ex s_ex"
    by (simp_all add: env_ex_def s_ex_def fits_def counts_ok_def)
  from pad_states_idempotent [OF h] h show ?thesis by blast
qed

text \<open>
  Claim C3 says that encoding leaves the engine's record unchanged and returns copies.
  It does not: the arrays of the observation are views of the record, so the stores of
  \<^verbatim>\<open>pad_states\<close> go into the record. At the example environment \<^verbatim>\<open>get_state\<close>
  turns the second node of the record, 4, into \<open>-1\<close>.
\<close>

theorem get_state_overwrites_record:
  "get_state env_ex = Inr (env_ex\<lparr>state := Some s_pad\<rparr>, views s_ex) \<and>
   state env_ex = Some s_ex \<and> nodes s_ex = [3, 4] \<and> nodes s_pad = [3, - 1] \<and>
   elems s_pad (nodes_o (views s_ex)) = [3, - 1]"
  using get_state_padded [OF ex_ok]
  by (simp add: padded_ex) (simp add: s_ex_def s_pad_def env_ex_def elems_def views_simps)

text \<open>
  Claim C3 as amended. For a record of the environment's layout whose counts lie within
  the capacities, \<^verbatim>\<open>get_state\<close> returns and changes nothing of the environment but
  the record, and of the record it leaves unchanged the counts, \<open>cursor\<close>,
  \<open>assignment\<close>, \<open>code\<close>, \<open>permitted_actions\<close>, \<open>tests\<close>, \<open>zast\<close>, every entry
  below its count and every entry outside the marker column; what it changes are the
  marker positions from each count on, where it stores \<open>-1\<close> (claim C2). The arrays of
  the observation returned are views of the record, not copies: they show the record's
  memory, and a store through them is a store into the record.
\<close>

theorem get_state_frame:
  assumes st: "state self = Some s" and f: "fits self s" and c: "counts_ok self s"
  shows "\<exists>s'. get_state self = Inr (self\<lparr>state := Some s'\<rparr>, views s) \<and>
    num_nodes s' = num_nodes s \<and> num_edges s' = num_edges s \<and> num_vars s' = num_vars s \<and>
    num_args s' = num_args s \<and> num_tests s' = num_tests s \<and> cursor s' = cursor s \<and>
    assignment s' = assignment s \<and> code s' = code s \<and>
    permitted_actions s' = permitted_actions s \<and> tests s' = tests s \<and> zast s' = zast s \<and>
    take (nat (num_nodes s)) (nodes s') = take (nat (num_nodes s)) (nodes s) \<and>
    take (nat (num_nodes s)) (starter s') = take (nat (num_nodes s)) (starter s) \<and>
    take (nat (num_edges s) * 3) (edges s') = take (nat (num_edges s) * 3) (edges s) \<and>
    take (nat (num_vars s)) (vars_in_scope s') = take (nat (num_vars s)) (vars_in_scope s) \<and>
    take (nat (num_args s) * 2) (args_in_scope s')
      = take (nat (num_args s) * 2) (args_in_scope s) \<and>
    (\<forall>k<length (edges s). k mod 3 \<noteq> 0 \<longrightarrow> edges s' ! k = edges s ! k) \<and>
    (\<forall>k<length (args_in_scope s). k mod 2 \<noteq> 0 \<longrightarrow> args_in_scope s' ! k = args_in_scope s ! k) \<and>
    elems s' (nodes_o (views s)) = nodes s' \<and>
    elems s' (starter_o (views s)) = starter s' \<and>
    elems s' (vars_in_scope_o (views s)) = vars_in_scope s' \<and>
    elems s' (permitted_actions_o (views s)) = permitted_actions s' \<and>
    concat (rows_of s' (edges_o (views s))) = edges s' \<and>
    concat (rows_of s' (args_in_scope_o (views s))) = args_in_scope s' \<and>
    (\<forall>i v. 0 \<le> i \<and> i < max_num_nodes self \<longrightarrow>
       setitem s' (nodes_o (views s)) i v = Inr (s'\<lparr>nodes := (nodes s')[nat i := v]\<rparr>))"
proof -
  let ?p = "padded self s"
  have len: "length (nodes s) = nat (max_num_nodes self)"
    "length (starter s) = nat (max_num_nodes self)"
    "length (edges s) = nat (max_num_nodes self * 3) * 3"
    "length (vars_in_scope s) = nat (max_num_vars self)"
    "length (args_in_scope s) = nat (max_num_vars self) * 2"
    using f by (simp_all add: fits_def nat_mult_distrib)
  have run: "get_state self = Inr (self\<lparr>state := Some ?p\<rparr>, views s)"
    by (rule get_state_padded [OF st f c])
  have sc: "num_nodes ?p = num_nodes s \<and> num_edges ?p = num_edges s \<and> num_vars ?p = num_vars s \<and>
    num_args ?p = num_args s \<and> num_tests ?p = num_tests s \<and> cursor ?p = cursor s \<and>
    assignment ?p = assignment s \<and> code ?p = code s \<and>
    permitted_actions ?p = permitted_actions s \<and> tests ?p = tests s \<and> zast ?p = zast s"
    by (simp add: padded_fields)
  have lv: "take (nat (num_nodes s)) (nodes ?p) = take (nat (num_nodes s)) (nodes s) \<and>
    take (nat (num_nodes s)) (starter ?p) = take (nat (num_nodes s)) (starter s) \<and>
    take (nat (num_edges s) * 3) (edges ?p) = take (nat (num_edges s) * 3) (edges s) \<and>
    take (nat (num_vars s)) (vars_in_scope ?p) = take (nat (num_vars s)) (vars_in_scope s) \<and>
    take (nat (num_args s) * 2) (args_in_scope ?p)
      = take (nat (num_args s) * 2) (args_in_scope s)"
    by (simp add: padded_fields take_mark_below)
  have off: "(\<forall>k<length (edges s). k mod 3 \<noteq> 0 \<longrightarrow> edges ?p ! k = edges s ! k) \<and>
    (\<forall>k<length (args_in_scope s). k mod 2 \<noteq> 0 \<longrightarrow> args_in_scope ?p ! k = args_in_scope s ! k)"
    by (simp add: padded_fields mark_off_marker)
  have el: "elems ?p (nodes_o (views s)) = nodes ?p \<and>
    elems ?p (starter_o (views s)) = starter ?p \<and>
    elems ?p (vars_in_scope_o (views s)) = vars_in_scope ?p \<and>
    elems ?p (permitted_actions_o (views s)) = permitted_actions ?p"
    by (simp add: elems_def views_simps padded_fields)
  have rw: "concat (rows_of ?p (edges_o (views s))) = edges ?p \<and>
    concat (rows_of ?p (args_in_scope_o (views s))) = args_in_scope ?p"
    using concat_rows [of "edges ?p" "nat (max_num_nodes self * 3)" 3]
      concat_rows [of "args_in_scope ?p" "nat (max_num_vars self)" 2] len
    by (simp add: rows_of_def row_def [abs_def] views_simps padded_fields)
  have wr: "setitem ?p (nodes_o (views s)) i v = Inr (?p\<lparr>nodes := (nodes ?p)[nat i := v]\<rparr>)"
    if "0 \<le> i \<and> i < max_num_nodes self" for i v
    using that len by (simp add: setitem_def index_def views_simps padded_fields)
  from run sc lv off el rw wr show ?thesis
    by (intro exI [of _ ?p]) simp
qed

text \<open>The theorem at the example environment.\<close>

theorem get_state_frame_witness:
  "state env_ex = Some s_ex \<and> fits env_ex s_ex \<and> counts_ok env_ex s_ex \<and>
   (\<exists>s'. get_state env_ex = Inr (env_ex\<lparr>state := Some s'\<rparr>, views s_ex) \<and>
      num_nodes s' = 1 \<and> num_edges s' = 1 \<and> permitted_actions s' = [1, 0, 1] \<and>
      take 1 (nodes s') = [3] \<and> take 3 (edges s') = [0, 1, 2] \<and>
      elems s' (nodes_o (views s_ex)) = nodes s' \<and>
      setitem s' (nodes_o (views s_ex)) 0 7 = Inr (s'\<lparr>nodes := (nodes s')[0 := 7]\<rparr>))"
proof -
  from get_state_frame [OF ex_ok] obtain s' where
    r: "get_state env_ex = Inr (env_ex\<lparr>state := Some s'\<rparr>, views s_ex)"
    and a: "num_nodes s' = num_nodes s_ex" "num_edges s' = num_edges s_ex"
      "permitted_actions s' = permitted_actions s_ex"
    and b: "take (nat (num_nodes s_ex)) (nodes s') = take (nat (num_nodes s_ex)) (nodes s_ex)"
      "take (nat (num_edges s_ex) * 3) (edges s') = take (nat (num_edges s_ex) * 3) (edges s_ex)"
    and e: "elems s' (nodes_o (views s_ex)) = nodes s'"
    and w: "\<forall>i v. 0 \<le> i \<and> i < max_num_nodes env_ex \<longrightarrow>
       setitem s' (nodes_o (views s_ex)) i v = Inr (s'\<lparr>nodes := (nodes s')[nat i := v]\<rparr>)"
    by blast
  have v: "num_nodes s_ex = 1" "num_edges s_ex = 1" "permitted_actions s_ex = [1, 0, 1]"
    "take (nat 1) (nodes s_ex) = [3]" "take (nat 1 * 3) (edges s_ex) = [0, 1, 2]"
    "max_num_nodes env_ex = 2"
    by (simp_all add: s_ex_def env_ex_def)
  have "setitem s' (nodes_o (views s_ex)) 0 7 = Inr (s'\<lparr>nodes := (nodes s')[0 := 7]\<rparr>)"
    using w [rule_format, of 0 7] v(6) by simp
  with r a b e v ex_ok show ?thesis
    by (intro conjI exI [of _ s']) simp_all
qed

section \<open>The decoder\<close>

text \<open>
  Claim C1. Round trip: for a record of the environment's layout whose counts lie within
  the capacities and whose live marker entries (\<open>nodes[i]\<close>, \<open>edges[i][0]\<close>,
  \<open>vars_in_scope[i]\<close>, \<open>args_in_scope[i][0]\<close> below the count) are non-negative,
  \<^verbatim>\<open>unpad_states\<close> applied to what \<^verbatim>\<open>pad_states\<close> returned gives exactly the live
  slices: the first \<open>num_nodes\<close> entries of \<open>nodes\<close> and of \<open>starter\<close>, the first
  \<open>num_edges\<close> rows of \<open>edges\<close>, the first \<open>num_vars\<close> entries of \<open>vars_in_scope\<close>
  and the first \<open>num_args\<close> rows of \<open>args_in_scope\<close>, each as the record held them
  before padding.
\<close>

theorem unpad_pad_roundtrip:
  assumes st: "state self = Some s" and f: "fits self s" and c: "counts_ok self s"
    and live: "\<forall>i<nat (num_nodes s). 0 \<le> nodes s ! i"
      "\<forall>i<nat (num_edges s). 0 \<le> edges s ! (i * 3)"
      "\<forall>i<nat (num_vars s). 0 \<le> vars_in_scope s ! i"
      "\<forall>i<nat (num_args s). 0 \<le> args_in_scope s ! (i * 2)"
  shows "\<exists>self' s' ob ob'.
      pad_states self (views s) = Inr (self', ob) \<and> state self' = Some s' \<and>
      unpad_states self' s' ob = Inr ob' \<and>
      elems s' (nodes_o ob') = take (nat (num_nodes s)) (nodes s) \<and>
      elems s' (starter_o ob') = take (nat (num_nodes s)) (starter s) \<and>
      rows_of s' (edges_o ob') = take (nat (num_edges s)) (rows_of s (edges_o (views s))) \<and>
      elems s' (vars_in_scope_o ob') = take (nat (num_vars s)) (vars_in_scope s) \<and>
      rows_of s' (args_in_scope_o ob')
        = take (nat (num_args s)) (rows_of s (args_in_scope_o (views s)))"
proof -
  let ?p = "padded self s" and ?self' = "self\<lparr>state := Some (padded self s)\<rparr>"
  let ?N = "nat (max_num_nodes self)" and ?E = "nat (max_num_nodes self * 3)"
  let ?V = "nat (max_num_vars self)"
  let ?n = "nat (num_nodes s)" and ?e = "nat (num_edges s)"
  let ?v = "nat (num_vars s)" and ?a = "nat (num_args s)"
  let ?ob' = "unpadded self ?p (views s)"
  have le: "?n \<le> ?N" "?e \<le> ?E" "?v \<le> ?V" "?a \<le> ?V"
    using c by (simp_all add: counts_ok_def nat_mono)
  have len: "length (nodes s) = ?N" "length (starter s) = ?N" "length (edges s) = ?E * 3"
    "length (vars_in_scope s) = ?V" "length (args_in_scope s) = ?V * 2"
    using f by (simp_all add: fits_def nat_mult_distrib)
  have r1: "pad_states self (views s) = Inr (?self', views s)"
    using get_state_padded [OF st f c] st by (simp add: get_state_def)
  have r2: "unpad_states ?self' ?p (views s) = Inr ?ob'"
    using unpad_states_unpadded [OF obs_ok_views [OF f, of "Some ?p"]] by simp
  have neg: "\<And>x::int. 0 \<le> x \<Longrightarrow> x \<noteq> - 1" by simp
  have bn: "boundary 1 ?N (mark 1 ?n ?N (nodes s)) = ?n"
    using le(1) len(1) live(1) by (intro boundary_mark) (simp_all add: neg)
  have be: "boundary 3 ?E (mark 3 ?e ?E (edges s)) = ?e"
    using le(2) len(3) live(2) by (intro boundary_mark) (simp_all add: neg)
  have bv: "boundary 1 ?V (mark 1 ?v ?V (vars_in_scope s)) = ?v"
    using le(3) len(4) live(3) by (intro boundary_mark) (simp_all add: neg)
  have ba: "boundary 2 ?V (mark 2 ?a ?V (args_in_scope s)) = ?a"
    using le(4) len(5) live(4) by (intro boundary_mark) (simp_all add: neg)
  have e1: "elems ?p (nodes_o ?ob') = take ?n (nodes s)"
    using take_mark_below [of ?n ?n 1 ?N "nodes s"] bn
    by (simp add: elems_def unpadded_fields views_simps padded_fields)
  have e2: "elems ?p (starter_o ?ob') = take ?n (starter s)"
    using take_mark_below [of ?n ?n 1 ?N "starter s"] bn
    by (simp add: elems_def unpadded_fields views_simps padded_fields)
  have e3: "rows_of ?p (edges_o ?ob') = take ?e (rows_of s (edges_o (views s)))"
  proof -
    have "rows_of ?p (edges_o ?ob') = map (row ?p (edges_o (views s))) [0..<?e]"
      using be by (simp add: rows_of_def row_def unpadded_fields views_simps padded_fields)
    also have "\<dots> = map (row s (edges_o (views s))) [0..<?e]"
      by (rule map_cong)
        (simp_all add: row_def views_simps padded_fields row_mark_below)
    also have "\<dots> = take ?e (rows_of s (edges_o (views s)))"
      using le(2) len(3) by (simp add: rows_of_def take_map views_simps min_def)
    finally show ?thesis .
  qed
  have e4: "elems ?p (vars_in_scope_o ?ob') = take ?v (vars_in_scope s)"
    using take_mark_below [of ?v ?v 1 ?V "vars_in_scope s"] bv
    by (simp add: elems_def unpadded_fields views_simps padded_fields)
  have e5: "rows_of ?p (args_in_scope_o ?ob') = take ?a (rows_of s (args_in_scope_o (views s)))"
  proof -
    have "rows_of ?p (args_in_scope_o ?ob') = map (row ?p (args_in_scope_o (views s))) [0..<?a]"
      using ba by (simp add: rows_of_def row_def unpadded_fields views_simps padded_fields)
    also have "\<dots> = map (row s (args_in_scope_o (views s))) [0..<?a]"
      by (rule map_cong)
        (simp_all add: row_def views_simps padded_fields row_mark_below)
    also have "\<dots> = take ?a (rows_of s (args_in_scope_o (views s)))"
      using le(4) len(5) by (simp add: rows_of_def take_map views_simps min_def)
    finally show ?thesis .
  qed
  have "state ?self' = Some ?p" by simp
  with r1 r2 e1 e2 e3 e4 e5 show ?thesis by blast
qed

text \<open>The theorem at the example environment: one live node, one live edge.\<close>

theorem unpad_pad_roundtrip_witness:
  "state env_ex = Some s_ex \<and> fits env_ex s_ex \<and> counts_ok env_ex s_ex \<and>
   take (nat (num_nodes s_ex)) (nodes s_ex) = [3] \<and>
   take (nat (num_edges s_ex)) (rows_of s_ex (edges_o (views s_ex))) = [[0, 1, 2]] \<and>
   (\<exists>self' s' ob ob'.
      pad_states env_ex (views s_ex) = Inr (self', ob) \<and> state self' = Some s' \<and>
      unpad_states self' s' ob = Inr ob' \<and>
      elems s' (nodes_o ob') = [3] \<and> elems s' (starter_o ob') = [3] \<and>
      rows_of s' (edges_o ob') = [[0, 1, 2]] \<and>
      elems s' (vars_in_scope_o ob') = [] \<and> rows_of s' (args_in_scope_o ob') = [])"
proof -
  have h: "state env_ex = Some s_ex" "fits env_ex s_ex" "counts_ok env_ex s_ex"
    by (simp_all add: env_ex_def s_ex_def fits_def counts_ok_def)
  have l: "\<forall>i<nat (num_nodes s_ex). 0 \<le> nodes s_ex ! i"
    "\<forall>i<nat (num_edges s_ex). 0 \<le> edges s_ex ! (i * 3)"
    "\<forall>i<nat (num_vars s_ex). 0 \<le> vars_in_scope s_ex ! i"
    "\<forall>i<nat (num_args s_ex). 0 \<le> args_in_scope s_ex ! (i * 2)"
    by (simp_all add: s_ex_def)
  have v: "take (nat (num_nodes s_ex)) (nodes s_ex) = [3]"
    "take (nat (num_nodes s_ex)) (starter s_ex) = [3]"
    "take (nat (num_edges s_ex)) (rows_of s_ex (edges_o (views s_ex))) = [[0, 1, 2]]"
    "take (nat (num_vars s_ex)) (vars_in_scope s_ex) = []"
    "take (nat (num_args s_ex)) (rows_of s_ex (args_in_scope_o (views s_ex))) = []"
    by (simp_all add: s_ex_def rows_of_def row_def views_simps upt_rec)
  from unpad_pad_roundtrip [OF h l] show ?thesis
    unfolding v using h v(1,3) by blast
qed

text \<open>
  Claim C7. For an observation of the schema's shape, \<^verbatim>\<open>unpad_states\<close> returns, and a
  field whose marker position (\<open>nodes[i]\<close>, \<open>edges[i][0]\<close>, \<open>vars_in_scope[i]\<close>,
  \<open>args_in_scope[i][0]\<close>) holds no \<open>-1\<close> anywhere within its capacity comes back
  unchanged, at capacity length. In particular a record with exactly \<open>max_num_nodes\<close>
  live (non-negative) nodes is padded to a \<open>nodes\<close> array with no sentinel in it, and
  decoding returns that array at full length, showing the nodes the record held.
\<close>

theorem unpad_states_no_sentinel:
  "(obs_ok self m st \<longrightarrow>
      (\<exists>ob'. unpad_states self m st = Inr ob' \<and>
         ((\<forall>i. 0 \<le> i \<and> i < max_num_nodes self \<longrightarrow> getitem m (nodes_o st) i \<noteq> Inr (- 1))
            \<longrightarrow> nodes_o ob' = nodes_o st \<and> rows (nodes_o ob') = nat (max_num_nodes self)) \<and>
         ((\<forall>i. 0 \<le> i \<and> i < max_num_nodes self * 3 \<longrightarrow>
              getitem2 m (edges_o st) i 0 \<noteq> Inr (- 1))
            \<longrightarrow> edges_o ob' = edges_o st \<and> rows (edges_o ob') = nat (max_num_nodes self * 3)) \<and>
         ((\<forall>i. 0 \<le> i \<and> i < max_num_vars self \<longrightarrow>
              getitem m (vars_in_scope_o st) i \<noteq> Inr (- 1))
            \<longrightarrow> vars_in_scope_o ob' = vars_in_scope_o st \<and>
                rows (vars_in_scope_o ob') = nat (max_num_vars self)) \<and>
         ((\<forall>i. 0 \<le> i \<and> i < max_num_vars self \<longrightarrow>
              getitem2 m (args_in_scope_o st) i 0 \<noteq> Inr (- 1))
            \<longrightarrow> args_in_scope_o ob' = args_in_scope_o st \<and>
                rows (args_in_scope_o ob') = nat (max_num_vars self)))) \<and>
   (state self = Some s \<and> fits self s \<and> counts_ok self s \<and>
    num_nodes s = max_num_nodes self \<and> (\<forall>i<length (nodes s). 0 \<le> nodes s ! i) \<longrightarrow>
      (\<exists>self' s' ob ob'.
         pad_states self (views s) = Inr (self', ob) \<and> state self' = Some s' \<and>
         (\<forall>i. 0 \<le> i \<and> i < max_num_nodes self \<longrightarrow> getitem s' (nodes_o ob) i \<noteq> Inr (- 1)) \<and>
         unpad_states self' s' ob = Inr ob' \<and> nodes_o ob' = nodes_o ob \<and>
         rows (nodes_o ob') = nat (max_num_nodes self) \<and> elems s' (nodes_o ob') = nodes s))"
proof (intro conjI impI)
  assume ok: "obs_ok self m st"
  have r: "rows (nodes_o st) = nat (max_num_nodes self)"
    "rows (edges_o st) = nat (max_num_nodes self * 3)"
    "rows (vars_in_scope_o st) = nat (max_num_vars self)"
    "rows (args_in_scope_o st) = nat (max_num_vars self)"
    using ok by (simp_all add: obs_ok_def)
  show "\<exists>ob'. unpad_states self m st = Inr ob' \<and>
         ((\<forall>i. 0 \<le> i \<and> i < max_num_nodes self \<longrightarrow> getitem m (nodes_o st) i \<noteq> Inr (- 1))
            \<longrightarrow> nodes_o ob' = nodes_o st \<and> rows (nodes_o ob') = nat (max_num_nodes self)) \<and>
         ((\<forall>i. 0 \<le> i \<and> i < max_num_nodes self * 3 \<longrightarrow>
              getitem2 m (edges_o st) i 0 \<noteq> Inr (- 1))
            \<longrightarrow> edges_o ob' = edges_o st \<and> rows (edges_o ob') = nat (max_num_nodes self * 3)) \<and>
         ((\<forall>i. 0 \<le> i \<and> i < max_num_vars self \<longrightarrow>
              getitem m (vars_in_scope_o st) i \<noteq> Inr (- 1))
            \<longrightarrow> vars_in_scope_o ob' = vars_in_scope_o st \<and>
                rows (vars_in_scope_o ob') = nat (max_num_vars self)) \<and>
         ((\<forall>i. 0 \<le> i \<and> i < max_num_vars self \<longrightarrow>
              getitem2 m (args_in_scope_o st) i 0 \<noteq> Inr (- 1))
            \<longrightarrow> args_in_scope_o ob' = args_in_scope_o st \<and>
                rows (args_in_scope_o ob') = nat (max_num_vars self))"
    using unpad_states_unpadded [OF ok] unpad_keeps_nodes(1) [OF ok] unpad_keeps_edges [OF ok]
      unpad_keeps_vars [OF ok] unpad_keeps_args [OF ok] r
    by (intro exI [of _ "unpadded self m st"]) simp
next
  assume "state self = Some s \<and> fits self s \<and> counts_ok self s \<and>
    num_nodes s = max_num_nodes self \<and> (\<forall>i<length (nodes s). 0 \<le> nodes s ! i)"
  then show "\<exists>self' s' ob ob'.
         pad_states self (views s) = Inr (self', ob) \<and> state self' = Some s' \<and>
         (\<forall>i. 0 \<le> i \<and> i < max_num_nodes self \<longrightarrow> getitem s' (nodes_o ob) i \<noteq> Inr (- 1)) \<and>
         unpad_states self' s' ob = Inr ob' \<and> nodes_o ob' = nodes_o ob \<and>
         rows (nodes_o ob') = nat (max_num_nodes self) \<and> elems s' (nodes_o ob') = nodes s"
    using full_nodes_roundtrip [of self s] by blast
qed

text \<open>
  The theorem at the full example record, which has no sentinel in any marker position:
  every field comes back whole.
\<close>

theorem unpad_states_no_sentinel_witness:
  "obs_ok env_full s_full (views s_full) \<and>
   map (\<lambda>i. getitem s_full (nodes_o (views s_full)) i) [0, 1] = [Inr 3, Inr 4] \<and>
   map (\<lambda>i. getitem2 s_full (edges_o (views s_full)) i 0) [0, 1, 2, 3, 4, 5]
     = [Inr 0, Inr 7, Inr 8, Inr 9, Inr 5, Inr 6] \<and>
   getitem s_full (vars_in_scope_o (views s_full)) 0 = Inr 9 \<and>
   getitem2 s_full (args_in_scope_o (views s_full)) 0 0 = Inr 4 \<and>
   (\<exists>ob'. unpad_states env_full s_full (views s_full) = Inr ob' \<and>
      nodes_o ob' = nodes_o (views s_full) \<and> rows (nodes_o ob') = 2 \<and>
      edges_o ob' = edges_o (views s_full) \<and> rows (edges_o ob') = 6 \<and>
      vars_in_scope_o ob' = vars_in_scope_o (views s_full) \<and> rows (vars_in_scope_o ob') = 1 \<and>
      args_in_scope_o ob' = args_in_scope_o (views s_full) \<and> rows (args_in_scope_o ob') = 1) \<and>
   state env_full = Some s_full \<and> fits env_full s_full \<and> counts_ok env_full s_full \<and>
   num_nodes s_full = max_num_nodes env_full \<and> nodes s_full = [3, 4] \<and>
   (\<exists>self' s' ob ob'.
      pad_states env_full (views s_full) = Inr (self', ob) \<and> state self' = Some s' \<and>
      unpad_states self' s' ob = Inr ob' \<and> nodes_o ob' = nodes_o ob \<and>
      rows (nodes_o ob') = 2 \<and> elems s' (nodes_o ob') = [3, 4])"
proof -
  have d: "max_num_nodes env_full = 2" "max_num_vars env_full = 1" "nodes s_full = [3, 4]"
    "edges s_full = [0, 1, 2, 7, 7, 7, 8, 8, 8, 9, 9, 9, 5, 5, 5, 6, 6, 6]"
    "vars_in_scope s_full = [9]" "args_in_scope s_full = [4, 4]" "num_nodes s_full = 2"
    "starter s_full = [- 1, 5]"
    by (simp_all add: env_full_def env_ex_def s_full_def s_ex_def)
  have ok: "obs_ok env_full s_full (views s_full)"
    by (simp add: obs_ok_def d views_simps)
  have h: "state env_full = Some s_full" "fits env_full s_full" "counts_ok env_full s_full"
    by (simp_all add: env_full_def env_ex_def s_full_def s_ex_def fits_def counts_ok_def)
  have g: "map (\<lambda>i. getitem s_full (nodes_o (views s_full)) i) [0, 1] = [Inr 3, Inr 4]"
    "map (\<lambda>i. getitem2 s_full (edges_o (views s_full)) i 0) [0, 1, 2, 3, 4, 5]
       = [Inr 0, Inr 7, Inr 8, Inr 9, Inr 5, Inr 6]"
    "getitem s_full (vars_in_scope_o (views s_full)) 0 = Inr 9"
    "getitem2 s_full (args_in_scope_o (views s_full)) 0 0 = Inr 4"
    by (simp_all add: getitem_def getitem2_def index_def views_simps d)
  have e2: "\<forall>k<2. nodes s_full ! k \<noteq> - 1"
  proof (intro allI impI)
    fix k :: nat assume "k < 2"
    then consider "k = 0" | "k = 1" by arith
    then show "nodes s_full ! k \<noteq> - 1" by cases (simp_all add: d)
  qed
  have e6: "\<forall>k<6. edges s_full ! (k * 3) \<noteq> - 1"
  proof (intro allI impI)
    fix k :: nat assume "k < 6"
    then consider "k = 0" | "k = 1" | "k = 2" | "k = 3" | "k = 4" | "k = 5" by arith
    then show "edges s_full ! (k * 3) \<noteq> - 1" by cases (simp_all add: d)
  qed
  have n1: "\<forall>i. 0 \<le> i \<and> i < max_num_nodes env_full \<longrightarrow>
              getitem s_full (nodes_o (views s_full)) i \<noteq> Inr (- 1)"
    using no_sentinel_getitem [of "nodes_o (views s_full)" 2 s_full] e2
    by (simp add: d(1,3) views_simps)
  have n2: "\<forall>i. 0 \<le> i \<and> i < max_num_nodes env_full * 3 \<longrightarrow>
              getitem2 s_full (edges_o (views s_full)) i 0 \<noteq> Inr (- 1)"
    using no_sentinel_getitem2 [of "edges_o (views s_full)" 6 s_full] e6
    by (simp add: d(1,4) views_simps)
  have n3: "\<forall>i. 0 \<le> i \<and> i < max_num_vars env_full \<longrightarrow>
              getitem s_full (vars_in_scope_o (views s_full)) i \<noteq> Inr (- 1)"
    using no_sentinel_getitem [of "vars_in_scope_o (views s_full)" 1 s_full]
    by (simp add: d(2,5) views_simps)
  have n4: "\<forall>i. 0 \<le> i \<and> i < max_num_vars env_full \<longrightarrow>
              getitem2 s_full (args_in_scope_o (views s_full)) i 0 \<noteq> Inr (- 1)"
    using no_sentinel_getitem2 [of "args_in_scope_o (views s_full)" 1 s_full]
    by (simp add: d(2,6) views_simps)
  have live: "\<forall>i<length (nodes s_full). 0 \<le> nodes s_full ! i"
  proof (intro allI impI)
    fix k :: nat assume "k < length (nodes s_full)"
    then have "k < 2" by (simp add: d)
    then consider "k = 0" | "k = 1" by arith
    then show "0 \<le> nodes s_full ! k" by cases (simp_all add: d)
  qed
  note t = unpad_states_no_sentinel [of env_full s_full "views s_full" s_full]
  from t [THEN conjunct1, THEN mp, OF ok] obtain ob' where
    u: "unpad_states env_full s_full (views s_full) = Inr ob'"
    and k1: "(\<forall>i. 0 \<le> i \<and> i < max_num_nodes env_full \<longrightarrow>
               getitem s_full (nodes_o (views s_full)) i \<noteq> Inr (- 1))
            \<longrightarrow> nodes_o ob' = nodes_o (views s_full) \<and>
                rows (nodes_o ob') = nat (max_num_nodes env_full)"
    and k2: "(\<forall>i. 0 \<le> i \<and> i < max_num_nodes env_full * 3 \<longrightarrow>
               getitem2 s_full (edges_o (views s_full)) i 0 \<noteq> Inr (- 1))
            \<longrightarrow> edges_o ob' = edges_o (views s_full) \<and>
                rows (edges_o ob') = nat (max_num_nodes env_full * 3)"
    and k3: "(\<forall>i. 0 \<le> i \<and> i < max_num_vars env_full \<longrightarrow>
               getitem s_full (vars_in_scope_o (views s_full)) i \<noteq> Inr (- 1))
            \<longrightarrow> vars_in_scope_o ob' = vars_in_scope_o (views s_full) \<and>
                rows (vars_in_scope_o ob') = nat (max_num_vars env_full)"
    and k4: "(\<forall>i. 0 \<le> i \<and> i < max_num_vars env_full \<longrightarrow>
               getitem2 s_full (args_in_scope_o (views s_full)) i 0 \<noteq> Inr (- 1))
            \<longrightarrow> args_in_scope_o ob' = args_in_scope_o (views s_full) \<and>
                rows (args_in_scope_o ob') = nat (max_num_vars env_full)"
    by blast
  from k1 [THEN mp, OF n1] k2 [THEN mp, OF n2] k3 [THEN mp, OF n3] k4 [THEN mp, OF n4] u
  have a: "\<exists>ob'. unpad_states env_full s_full (views s_full) = Inr ob' \<and>
      nodes_o ob' = nodes_o (views s_full) \<and> rows (nodes_o ob') = 2 \<and>
      edges_o ob' = edges_o (views s_full) \<and> rows (edges_o ob') = 6 \<and>
      vars_in_scope_o ob' = vars_in_scope_o (views s_full) \<and> rows (vars_in_scope_o ob') = 1 \<and>
      args_in_scope_o ob' = args_in_scope_o (views s_full) \<and> rows (args_in_scope_o ob') = 1"
    by (intro exI [of _ ob']) (simp add: d views_simps)
  have pre: "state env_full = Some s_full \<and> fits env_full s_full \<and> counts_ok env_full s_full \<and>
    num_nodes s_full = max_num_nodes env_full \<and>
    (\<forall>i<length (nodes s_full). 0 \<le> nodes s_full ! i)"
    using h live by (simp add: d(1,7))
  from t [THEN conjunct2, THEN mp, OF pre] obtain self' s' ob ob2 where
    "pad_states env_full (views s_full) = Inr (self', ob)" "state self' = Some s'"
    "unpad_states self' s' ob = Inr ob2" "nodes_o ob2 = nodes_o ob"
    "rows (nodes_o ob2) = nat (max_num_nodes env_full)" "elems s' (nodes_o ob2) = nodes s_full"
    by blast
  then have b: "\<exists>self' s' ob ob'.
      pad_states env_full (views s_full) = Inr (self', ob) \<and> state self' = Some s' \<and>
      unpad_states self' s' ob = Inr ob' \<and> nodes_o ob' = nodes_o ob \<and>
      rows (nodes_o ob') = 2 \<and> elems s' (nodes_o ob') = [3, 4]"
    by (intro exI [of _ self'] exI [of _ s'] exI [of _ ob] exI [of _ ob2]) (simp add: d)
  have c: "num_nodes s_full = max_num_nodes env_full" by (simp add: d(1,7))
  from a b ok g h c d(3) show ?thesis by (intro conjI)
qed

text \<open>
  Claim C10. For an observation of the schema's shape, \<^verbatim>\<open>unpad_states\<close> takes the
  boundary of \<open>starter\<close> from \<open>nodes\<close> alone: when \<open>nodes[k] = -1\<close> is the first
  sentinel of \<open>nodes\<close>, both \<open>nodes\<close> and \<open>starter\<close> are cut to length \<open>k\<close>; when
  \<open>nodes\<close> has no sentinel within \<open>max_num_nodes\<close>, \<open>starter\<close> comes back whole
  whatever it holds; and the result does not depend on the entries of \<open>starter\<close>
  (replacing them changes nothing), given that the other arrays are not views of the
  memory of \<open>starter\<close>.
\<close>

theorem unpad_states_starter_follows_nodes:
  assumes ok: "obs_ok self m st"
  shows
   "(\<forall>k. 0 \<le> k \<and> k < max_num_nodes self \<and> getitem m (nodes_o st) k = Inr (- 1) \<and>
         (\<forall>i. 0 \<le> i \<and> i < k \<longrightarrow> getitem m (nodes_o st) i \<noteq> Inr (- 1)) \<longrightarrow>
         (\<exists>ob'. unpad_states self m st = Inr ob' \<and>
            nodes_o ob' = slice_to (nodes_o st) k \<and> starter_o ob' = slice_to (starter_o st) k \<and>
            rows (nodes_o ob') = nat k \<and> rows (starter_o ob') = nat k)) \<and>
    ((\<forall>i. 0 \<le> i \<and> i < max_num_nodes self \<longrightarrow> getitem m (nodes_o st) i \<noteq> Inr (- 1)) \<longrightarrow>
         (\<exists>ob'. unpad_states self m st = Inr ob' \<and> starter_o ob' = starter_o st \<and>
            rows (starter_o ob') = nat (max_num_nodes self))) \<and>
    (base (nodes_o st) \<noteq> F_starter \<and> base (edges_o st) \<noteq> F_starter \<and>
     base (vars_in_scope_o st) \<noteq> F_starter \<and> base (args_in_scope_o st) \<noteq> F_starter \<longrightarrow>
         (\<forall>xs. length xs = length (starter m) \<longrightarrow>
            unpad_states self (m\<lparr>starter := xs\<rparr>) st = unpad_states self m st))"
proof (intro conjI allI impI)
  let ?N = "nat (max_num_nodes self)"
  have r: "rows (nodes_o st) = ?N" "rows (starter_o st) = ?N" "int ?N = max_num_nodes self"
    using ok by (simp_all add: obs_ok_def)
  have run: "unpad_states self m st = Inr (unpadded self m st)"
    by (rule unpad_states_unpadded [OF ok])
  {
    fix k
    assume a: "0 \<le> k \<and> k < max_num_nodes self \<and> getitem m (nodes_o st) k = Inr (- 1) \<and>
         (\<forall>i. 0 \<le> i \<and> i < k \<longrightarrow> getitem m (nodes_o st) i \<noteq> Inr (- 1))"
    have b: "boundary 1 ?N (peek m (base (nodes_o st))) = nat k"
      using a r by (intro first_sentinel_boundary) simp_all
    from a have k: "0 \<le> k" "k < max_num_nodes self" by simp_all
    then have le: "nat k \<le> ?N" by arith
    have "slice_to (nodes_o st) k = (nodes_o st)\<lparr>rows := nat k\<rparr>"
      "slice_to (starter_o st) k = (starter_o st)\<lparr>rows := nat k\<rparr>"
      using slice_to_nat [of "nat k" "nodes_o st"] slice_to_nat [of "nat k" "starter_o st"] le r a
      by simp_all
    then show "\<exists>ob'. unpad_states self m st = Inr ob' \<and>
            nodes_o ob' = slice_to (nodes_o st) k \<and> starter_o ob' = slice_to (starter_o st) k \<and>
            rows (nodes_o ob') = nat k \<and> rows (starter_o ob') = nat k"
      using run b by (intro exI [of _ "unpadded self m st"]) (simp add: unpadded_fields)
  }
  {
    assume "\<forall>i. 0 \<le> i \<and> i < max_num_nodes self \<longrightarrow> getitem m (nodes_o st) i \<noteq> Inr (- 1)"
    from unpad_keeps_nodes(2) [OF ok this] run r
    show "\<exists>ob'. unpad_states self m st = Inr ob' \<and> starter_o ob' = starter_o st \<and>
            rows (starter_o ob') = nat (max_num_nodes self)"
      by (intro exI [of _ "unpadded self m st"]) simp
  }
  {
    fix xs :: "int list"
    assume b: "base (nodes_o st) \<noteq> F_starter \<and> base (edges_o st) \<noteq> F_starter \<and>
       base (vars_in_scope_o st) \<noteq> F_starter \<and> base (args_in_scope_o st) \<noteq> F_starter"
      and l: "length xs = length (starter m)"
    have "unpad_states self (m\<lparr>starter := xs\<rparr>) st = Inr (unpadded self (m\<lparr>starter := xs\<rparr>) st)"
      by (rule unpad_states_unpadded [OF obs_ok_starter_upd [OF ok l]])
    then show "unpad_states self (m\<lparr>starter := xs\<rparr>) st = unpad_states self m st"
      using run b by (simp add: unpadded_starter_upd)
  }
qed

text \<open>
  The theorem at the padded example record (first sentinel of \<open>nodes\<close> at index 1) and at
  the full example record, whose \<open>starter\<close> begins with \<open>-1\<close>.
\<close>

theorem unpad_states_starter_follows_nodes_witness:
  "obs_ok env_ex s_pad (views s_ex) \<and> obs_ok env_ex s_full (views s_ex) \<and>
   getitem s_pad (nodes_o (views s_ex)) 1 = Inr (- 1) \<and>
   getitem s_pad (nodes_o (views s_ex)) 0 = Inr 3 \<and>
   (\<exists>ob'. unpad_states env_ex s_pad (views s_ex) = Inr ob' \<and>
      rows (nodes_o ob') = 1 \<and> rows (starter_o ob') = 1) \<and>
   getitem s_full (nodes_o (views s_ex)) 0 = Inr 3 \<and>
   getitem s_full (nodes_o (views s_ex)) 1 = Inr 4 \<and>
   getitem s_full (starter_o (views s_ex)) 0 = Inr (- 1) \<and>
   (\<exists>ob'. unpad_states env_ex s_full (views s_ex) = Inr ob' \<and>
      starter_o ob' = starter_o (views s_ex) \<and> rows (starter_o ob') = 2) \<and>
   unpad_states env_ex (s_pad\<lparr>starter := [- 1, - 1]\<rparr>) (views s_ex)
     = unpad_states env_ex s_pad (views s_ex)"
proof -
  have g: "getitem s_pad (nodes_o (views s_ex)) 1 = Inr (- 1)"
    "getitem s_pad (nodes_o (views s_ex)) 0 = Inr 3"
    "getitem s_full (nodes_o (views s_ex)) 0 = Inr 3"
    "getitem s_full (nodes_o (views s_ex)) 1 = Inr 4"
    "getitem s_full (starter_o (views s_ex)) 0 = Inr (- 1)"
    by (simp_all add: getitem_def index_def views_simps s_ex_def s_pad_def s_full_def)
  have cap: "max_num_nodes env_ex = 2" by (simp add: env_ex_def)
  have first: "0 \<le> (1::int) \<and> 1 < max_num_nodes env_ex \<and>
      getitem s_pad (nodes_o (views s_ex)) 1 = Inr (- 1) \<and>
      (\<forall>i. 0 \<le> i \<and> i < 1 \<longrightarrow> getitem s_pad (nodes_o (views s_ex)) i \<noteq> Inr (- 1))"
  proof -
    have "getitem s_pad (nodes_o (views s_ex)) i \<noteq> Inr (- 1)" if "0 \<le> i \<and> i < 1" for i
    proof -
      from that have "i = 0" by arith
      then show ?thesis using g(2) by simp
    qed
    then show ?thesis using g(1) cap by simp
  qed
  have none: "\<forall>i. 0 \<le> i \<and> i < max_num_nodes env_ex \<longrightarrow>
      getitem s_full (nodes_o (views s_ex)) i \<noteq> Inr (- 1)"
  proof (intro allI impI)
    fix i assume "0 \<le> i \<and> i < max_num_nodes env_ex"
    then have "i = 0 \<or> i = 1" unfolding cap by (rule int_lt2)
    then show "getitem s_full (nodes_o (views s_ex)) i \<noteq> Inr (- 1)" using g(3,4) by auto
  qed
  have bases: "base (nodes_o (views s_ex)) \<noteq> F_starter \<and> base (edges_o (views s_ex)) \<noteq> F_starter \<and>
     base (vars_in_scope_o (views s_ex)) \<noteq> F_starter \<and>
     base (args_in_scope_o (views s_ex)) \<noteq> F_starter"
    by (simp add: views_simps)
  have len: "length [- 1, - 1 :: int] = length (starter s_pad)" by (simp add: s_pad_def)
  note t1 = unpad_states_starter_follows_nodes [OF ok_ex(2)]
  note t2 = unpad_states_starter_follows_nodes [OF ok_ex(3)]
  from t1 [THEN conjunct1, rule_format, of 1, OF first]
  have a: "\<exists>ob'. unpad_states env_ex s_pad (views s_ex) = Inr ob' \<and>
      rows (nodes_o ob') = 1 \<and> rows (starter_o ob') = 1"
    by auto
  from t2 [THEN conjunct2, THEN conjunct1, THEN mp, OF none] cap
  have b: "\<exists>ob'. unpad_states env_ex s_full (views s_ex) = Inr ob' \<and>
      starter_o ob' = starter_o (views s_ex) \<and> rows (starter_o ob') = 2"
    by auto
  from t1 [THEN conjunct2, THEN conjunct2, rule_format, OF bases len]
  have c: "unpad_states env_ex (s_pad\<lparr>starter := [- 1, - 1]\<rparr>) (views s_ex)
     = unpad_states env_ex s_pad (views s_ex)" .
  from a b c g ok_ex(2,3) show ?thesis by simp
qed

section \<open>Lemmas about the protocol\<close>

text \<open>
  What survives an update of \<open>engine\<close> or \<open>state\<close>, what a constructor call that
  returned says about its result, that no store of \<^verbatim>\<open>pad_states\<close> resizes an array,
  and what \<^verbatim>\<open>step\<close> and \<^verbatim>\<open>reset\<close> return on a well-formed record.
\<close>

lemma fits_state_upd [simp]: "fits (self\<lparr>state := x\<rparr>) s = fits self s"
  by (simp add: fits_def)

lemma fits_engine_upd [simp]: "fits (self\<lparr>engine := e\<rparr>) s = fits self s"
  by (simp add: fits_def)

lemma counts_ok_state_upd [simp]: "counts_ok (self\<lparr>state := x\<rparr>) s = counts_ok self s"
  by (simp add: counts_ok_def)

lemma counts_ok_engine_upd [simp]: "counts_ok (self\<lparr>engine := e\<rparr>) s = counts_ok self s"
  by (simp add: counts_ok_def)

lemma padded_state_upd [simp]: "padded (self\<lparr>state := x\<rparr>) s = padded self s"
  by (simp add: padded_def)

lemma padded_engine_upd [simp]: "padded (self\<lparr>engine := e\<rparr>) s = padded self s"
  by (simp add: padded_def)

lemma and_then_eq_Inr: "and_then r f = Inr y \<longleftrightarrow> (\<exists>x. r = Inr x \<and> f x = Inr y)"
  by (cases r) simp_all

lemma and_then_eq_Inl:
  "and_then r f = Inl e \<longleftrightarrow> r = Inl e \<or> (\<exists>x. r = Inr x \<and> f x = Inl e)"
  by (cases r) simp_all

lemma c_array_Inr:
  "c_array sz n = Inr a \<longleftrightarrow>
     0 \<le> n \<and> n \<le> 2 ^ 63 - 1 \<and> (sz = 0 \<or> n \<le> (2 ^ 63 - 1) div int sz) \<and> a = nat n"
  by (auto simp: c_array_def)

lemma c_array_Inl: "c_array sz n = Inl e \<Longrightarrow> e = ValueError \<or> e = OverflowError"
  by (auto simp: c_array_def split: if_splits)

lemma c_array2_Inr: "c_array2 sz n k = Inr a \<Longrightarrow> 0 \<le> n \<and> 0 \<le> k \<and> a = nat n * nat k"
  by (auto simp: c_array2_def and_then_eq_Inr c_array_Inr)

lemma c_array2_Inl: "c_array2 sz n k = Inl e \<Longrightarrow> e = ValueError \<or> e = OverflowError"
  by (auto simp: c_array2_def and_then_eq_Inl dest: c_array_Inl)

lemma State_fields_of_Inr:
  assumes "State_fields_of N nt nact V mtl = Inr fs"
  shows "0 \<le> N" "0 \<le> V" "0 \<le> nact + V * 2" "0 \<le> nt" "0 \<le> mtl"
    "edges_n fs = nat (N * 3) * 3" "tests_n fs = nat nt * 2" "nodes_n fs = nat N"
    "starter_n fs = nat N" "permitted_actions_n fs = nat (nact + V * 2)"
    "vars_in_scope_n fs = nat V" "args_in_scope_n fs = nat V * 2" "zast_n fs = nat mtl"
  using assms
  by (auto simp: State_fields_of_def and_then_eq_Inr c_array_Inr dest!: c_array2_Inr)

lemma State_fields_of_Inl:
  "State_fields_of N nt nact V mtl = Inl e \<Longrightarrow> e = ValueError \<or> e = OverflowError"
  by (auto simp: State_fields_of_def and_then_eq_Inl dest: c_array_Inl c_array2_Inl)

lemma init_Inr:
  assumes "init sys N nd na cpa nact dir p nt mtl V seed = Inr e"
  shows "State_fields_of N nt nact V mtl = Inr (State_fields e)"
    "num_node_descriptor e = nd" "max_num_nodes e = N" "num_actions e = nact"
    "max_num_vars e = V" "perturbation e = p" "state e = None"
    "code_per_assignment e = cpa" "assignment_dir e = dir"
    "map_of (observation_space e) ''assignment'' = Some (Discrete na)"
    "CDLL sys ''/RL_env/clib/astclib.so'' = Inr (astclib e)"
    "gym_accepts sys (Discrete N)" "\<not> State_final sys"
  using assms
  by (auto simp: init_def and_then_eq_Inr mk_space_def split: if_splits)

lemma init_fields_Inl:
  assumes "State_fields_of N nt nact V mtl = Inl e"
  shows "init sys N nd na cpa nact dir p nt mtl V seed = Inl e"
  using assms by (simp add: init_def)

lemma same_layout_refl [simp]: "same_layout s s"
  by (simp add: same_layout_def)

lemma same_layout_trans: "same_layout a b \<Longrightarrow> same_layout b c \<Longrightarrow> same_layout a c"
  by (simp add: same_layout_def)

lemma same_layout_poke: "length xs = length (peek s f) \<Longrightarrow> same_layout s (poke s f xs)"
  by (cases f) (simp_all add: same_layout_def)

lemma setitem_layout: "setitem s a i v = Inr s' \<Longrightarrow> same_layout s s'"
  by (auto simp: setitem_def and_then_eq_Inr same_layout_poke)

lemma setitem2_layout: "setitem2 s a i j v = Inr s' \<Longrightarrow> same_layout s s'"
  by (auto simp: setitem2_def and_then_eq_Inr same_layout_poke)

lemma for_in_layout:
  assumes body: "\<And>i s s'. f i s = Inr s' \<Longrightarrow> same_layout s s'"
  shows "for_in xs f s = Inr s' \<Longrightarrow> same_layout s s'"
proof (induction xs arbitrary: s)
  case Nil
  then show ?case by simp
next
  case (Cons i xs)
  from Cons.prems obtain t where t: "f i s = Inr t" "for_in xs f t = Inr s'"
    by (auto simp: and_then_eq_Inr)
  from body [OF t(1)] Cons.IH [OF t(2)] show ?case by (rule same_layout_trans)
qed

lemma pad_states_layout:
  assumes "pad_states self st = Inr (self', st')"
  shows "\<exists>s s'. state self = Some s \<and> self' = self\<lparr>state := Some s'\<rparr> \<and> st' = st \<and>
           same_layout s s'"
proof -
  from assms obtain s0 where s0: "state self = Some s0"
    by (cases "state self") (simp_all add: pad_states_def)
  from assms s0 obtain s1 s2 s3 s4 where
    l1: "for_in (range_py (num_nodes s0) (max_num_nodes self))
           (\<lambda>i s. and_then (setitem s (nodes_o st) i (- 1))
                     (\<lambda>s. setitem s (starter_o st) i (- 1))) s0 = Inr s1"
    and l2: "for_in (range_py (num_edges s1) (max_num_nodes self * 3))
           (\<lambda>i s. setitem2 s (edges_o st) i 0 (- 1)) s1 = Inr s2"
    and l3: "for_in (range_py (num_vars s2) (max_num_vars self))
           (\<lambda>i s. setitem s (vars_in_scope_o st) i (- 1)) s2 = Inr s3"
    and l4: "for_in (range_py (num_args s3) (max_num_vars self))
           (\<lambda>i s. setitem2 s (args_in_scope_o st) i 0 (- 1)) s3 = Inr s4"
    and res: "self' = self\<lparr>state := Some s4\<rparr>" "st' = st"
    by (auto simp: pad_states_def and_then_eq_Inr)
  have "same_layout s0 s1"
    by (rule for_in_layout [OF _ l1])
       (auto simp: and_then_eq_Inr dest!: setitem_layout intro: same_layout_trans)
  moreover have "same_layout s1 s2"
    by (rule for_in_layout [OF _ l2]) (erule setitem2_layout)
  moreover have "same_layout s2 s3"
    by (rule for_in_layout [OF _ l3]) (erule setitem_layout)
  moreover have "same_layout s3 s4"
    by (rule for_in_layout [OF _ l4]) (erule setitem2_layout)
  ultimately have "same_layout s0 s4" by (blast intro: same_layout_trans)
  with s0 res show ?thesis by blast
qed

lemma get_state_layout:
  assumes "get_state self = Inr (self', ob)"
  shows "\<exists>s s'. state self = Some s \<and> self' = self\<lparr>state := Some s'\<rparr> \<and> ob = views s \<and>
           same_layout s s'"
proof -
  from assms obtain s where s: "state self = Some s"
    by (cases "state self") (simp_all add: get_state_def)
  with assms have "pad_states self (views s) = Inr (self', ob)" by (simp add: get_state_def)
  from pad_states_layout [OF this] s show ?thesis by auto
qed

lemma step_layout:
  assumes r: "step self act = Inr (self', (ob, rw, d, info))" and k: "keeps_layout (astclib self)"
  shows "\<exists>s0 e s s'. state self = Some s0 \<and> self' = self\<lparr>engine := e, state := Some s'\<rparr> \<and>
           ob = views s \<and> same_layout s0 s \<and> same_layout s s'"
proof -
  from r obtain s0 where s0: "state self = Some s0"
    by (cases "state self") (simp_all add: step_def)
  obtain e1 s1 where t: "take_action (astclib self) (engine self) s0 (c_int act) = (e1, s1)"
    by (cases "take_action (astclib self) (engine self) s0 (c_int act)")
  obtain e2 s2 r2 where c: "check_ast (astclib self) e1 s1 = (e2, s2, r2)"
    by (cases "check_ast (astclib self) e1 s1")
  have "same_layout s0 s1" using k t unfolding keeps_layout_def by (metis snd_conv)
  moreover have "same_layout s1 s2" using k c unfolding keeps_layout_def
    by (metis fst_conv snd_conv)
  ultimately have sl: "same_layout s0 s2" by (rule same_layout_trans)
  from r s0 t c have "get_state (self\<lparr>engine := e2, state := Some s2\<rparr>) = Inr (self', ob)"
    by (auto simp: step_def and_then_eq_Inr)
  from get_state_layout [OF this] sl s0 show ?thesis by auto
qed

lemma step_result:
  assumes ready: "state self = Some s"
    and act: "take_action (astclib self) (engine self) s (c_int action) = (e1, s1)"
    and chk: "check_ast (astclib self) e1 s1 = (e2, s2, r)"
    and f: "fits self s2" and c: "counts_ok self s2"
  shows "step self action
         = Inr (self\<lparr>engine := e2, state := Some (padded self s2)\<rparr>,
                (views s2, r, r = 1, Map.empty))"
proof -
  let ?self2 = "self\<lparr>engine := e2, state := Some s2\<rparr>"
  have "get_state ?self2 = Inr (?self2\<lparr>state := Some (padded ?self2 s2)\<rparr>, views s2)"
    by (rule get_state_padded) (simp_all add: f c)
  then show ?thesis using ready act chk by (simp add: step_def)
qed

lemma set_certain [simp]: "(y, q) \<in> set (certain r) \<longleftrightarrow> y = r \<and> q = 1"
  by (auto simp: certain_def)

lemma set_draw_then:
  "(y, q) \<in> set (draw_then d f) \<longleftrightarrow>
     (\<exists>e. y = Inl e \<and> (Inl e, q) \<in> set d) \<or>
     (\<exists>x p q'. (Inr x, p) \<in> set d \<and> (y, q') \<in> set (f x) \<and> q = p * q')"
proof
  assume "(y, q) \<in> set (draw_then d f)"
  then obtain r p where rp: "(r, p) \<in> set d"
    and m: "(y, q) \<in> set (case r of Inl e \<Rightarrow> [(Inl e, p)]
                              | Inr x \<Rightarrow> map (\<lambda>(y, q). (y, p * q)) (f x))"
    by (auto simp: draw_then_def)
  show "(\<exists>e. y = Inl e \<and> (Inl e, q) \<in> set d) \<or>
     (\<exists>x p q'. (Inr x, p) \<in> set d \<and> (y, q') \<in> set (f x) \<and> q = p * q')"
  proof (cases r)
    case (Inl e)
    with rp m show ?thesis by auto
  next
    case (Inr x)
    with m obtain q' where "(y, q') \<in> set (f x)" "q = p * q'" by auto
    with rp Inr show ?thesis by blast
  qed
next
  assume "(\<exists>e. y = Inl e \<and> (Inl e, q) \<in> set d) \<or>
     (\<exists>x p q'. (Inr x, p) \<in> set d \<and> (y, q') \<in> set (f x) \<and> q = p * q')"
  then show "(y, q) \<in> set (draw_then d f)"
    by (force simp: draw_then_def)
qed

lemma draw_then_certain_Inr [simp]: "draw_then (certain (Inr x)) f = f x"
  by (simp add: draw_then_def certain_def)

lemma draw_then_certain_Inl [simp]: "draw_then (certain (Inl e)) f = certain (Inl e)"
  by (simp add: draw_then_def certain_def)

lemma draw_then_map_Inr:
  "draw_then (map (\<lambda>x. (Inr x, w)) xs) f
   = concat (map (\<lambda>x. map (\<lambda>(y, q). (y, w * q)) (f x)) xs)"
  by (simp add: draw_then_def comp_def)

lemma reset_outcome:
  assumes "(Inr r, w) \<in> set (reset self)"
  shows "\<exists>a c. (case init_assignment (astclib self) (engine self)
                        (State_new (State_fields self)) (assignment_dir self)
                        (c_int a) (c_int c) (c_int (perturbation self)) of
                   (e1, s1) \<Rightarrow> get_state (self\<lparr>engine := e1, state := Some s1\<rparr>)) = Inr r"
  using assms
  by (auto simp: reset_def set_draw_then split: option.splits) blast

lemma reset_layout:
  assumes r: "(Inr (self', ob), w) \<in> set (reset self)" and k: "keeps_layout (astclib self)"
  shows "\<exists>e s s'. self' = self\<lparr>engine := e, state := Some s'\<rparr> \<and> ob = views s \<and>
           same_layout (State_new (State_fields self)) s \<and> same_layout s s'"
proof -
  from reset_outcome [OF r] obtain a' c' where
    g: "(case init_assignment (astclib self) (engine self) (State_new (State_fields self))
                 (assignment_dir self) (c_int a') (c_int c')
                 (c_int (perturbation self)) of
            (e1, s1) \<Rightarrow> get_state (self\<lparr>engine := e1, state := Some s1\<rparr>)) = Inr (self', ob)"
    by blast
  obtain e1 s1 where l: "init_assignment (astclib self) (engine self)
      (State_new (State_fields self)) (assignment_dir self) (c_int a') (c_int c')
      (c_int (perturbation self)) = (e1, s1)"
    by (cases "init_assignment (astclib self) (engine self)
      (State_new (State_fields self)) (assignment_dir self) (c_int a') (c_int c')
      (c_int (perturbation self))")
  have sl: "same_layout (State_new (State_fields self)) s1"
    using k l unfolding keeps_layout_def by (metis snd_conv)
  from g l have "get_state (self\<lparr>engine := e1, state := Some s1\<rparr>) = Inr (self', ob)" by simp
  from get_state_layout [OF this] sl show ?thesis by auto
qed

lemma episode_layout:
  assumes k: "keeps_layout (astclib e0)" and ep: "episode e0 e ob"
  shows "\<exists>eng s s'. e = e0\<lparr>engine := eng, state := Some s'\<rparr> \<and> ob = views s \<and>
           same_layout (State_new (State_fields e0)) s \<and> same_layout s s'"
  using ep
proof (induction rule: episode.induct)
  case (first_reset e ob w)
  from reset_layout [OF this k] show ?case .
next
  case (next_reset e ob e' ob' w)
  then obtain eng s s' where e: "e = e0\<lparr>engine := eng, state := Some s'\<rparr>" by blast
  then have "keeps_layout (astclib e)" using k by simp
  from reset_layout [OF next_reset.hyps(2) this] e show ?case by auto
next
  case (next_step e ob act e' ob' r d info)
  then obtain eng s s' where e: "e = e0\<lparr>engine := eng, state := Some s'\<rparr>"
    and sl: "same_layout (State_new (State_fields e0)) s" "same_layout s s'" by blast
  then have "keeps_layout (astclib e)" using k by simp
  from step_layout [OF next_step.hyps(2) this] obtain s0 e2 t t' where
    x: "state e = Some s0" "e' = e\<lparr>engine := e2, state := Some t'\<rparr>" "ob' = views t"
       "same_layout s0 t" "same_layout t t'" by blast
  from x(1) e have "s0 = s'" by simp
  with sl x(4) have "same_layout (State_new (State_fields e0)) t"
    by (blast intro: same_layout_trans)
  with x e show ?case by auto
qed

lemma reset_draws:
  assumes sp: "map_of (observation_space self) ''assignment'' = Some (Discrete n)"
    and pos: "0 < n" and len: "nat n \<le> length (code_per_assignment self)"
    and codes: "\<forall>a. 0 \<le> a \<and> a < n \<longrightarrow> 0 < code_per_assignment self ! nat a"
  shows "reset self =
           concat (map (\<lambda>a. map (\<lambda>c.
               (case init_assignment (astclib self) (engine self)
                       (State_new (State_fields self)) (assignment_dir self)
                       (c_int a) (c_int c) (c_int (perturbation self)) of
                  (e1, s1) \<Rightarrow> get_state (self\<lparr>engine := e1, state := Some s1\<rparr>),
                1 / of_int n * (1 / of_int (code_per_assignment self ! nat a))))
             (range_py 0 (code_per_assignment self ! nat a))) (range_py 0 n))"
proof -
  let ?load = "\<lambda>a c. case init_assignment (astclib self) (engine self)
                       (State_new (State_fields self)) (assignment_dir self)
                       (c_int a) (c_int c) (c_int (perturbation self)) of
                  (e1, s1) \<Rightarrow> get_state (self\<lparr>engine := e1, state := Some s1\<rparr>)"
  let ?k = "\<lambda>a. code_per_assignment self ! nat a"
  let ?rest = "\<lambda>a. draw_then (certain (list_getitem (code_per_assignment self) a)) (\<lambda>k.
                  draw_then (randint 0 (k - 1)) (\<lambda>code. certain (?load a code)))"
  have rest: "?rest a = map (\<lambda>c. (?load a c, 1 / of_int (?k a))) (range_py 0 (?k a))"
    if a: "a \<in> set (range_py 0 n)" for a
  proof -
    from a have a': "0 \<le> a" "a < n" by simp_all
    with len have "nat a < length (code_per_assignment self)" by linarith
    with a' have g: "list_getitem (code_per_assignment self) a = Inr (?k a)"
      by (simp add: list_getitem_def index_def)
    from codes a' have k: "0 < ?k a" by blast
    then have r: "randint 0 (?k a - 1)
                  = map (\<lambda>x. (Inr x, 1 / of_int (?k a))) (range_py 0 (?k a))"
      by (simp add: randint_def)
    show ?thesis
      by (simp add: g r draw_then_map_Inr) (simp add: certain_def)
  qed
  have "reset self = draw_then (sample (Discrete n)) ?rest"
    using sp by (simp add: reset_def)
  also have "\<dots> = concat (map (\<lambda>a. map (\<lambda>(y, q). (y, 1 / of_int n * q)) (?rest a))
                         (range_py 0 n))"
    using pos by (simp add: sample_def draw_then_map_Inr)
  also have "\<dots> = concat (map (\<lambda>a. map (\<lambda>(y, q). (y, 1 / of_int n * q))
                         (map (\<lambda>c. (?load a c, 1 / of_int (?k a))) (range_py 0 (?k a))))
                         (range_py 0 n))"
    by (rule arg_cong [where f = concat], rule map_cong [OF refl]) (simp only: rest)
  finally show ?thesis by (simp add: comp_def mult.commute)
qed

lemma list_all_replicate: "list_all P (replicate n x) \<longleftrightarrow> n = 0 \<or> P x"
  by (induction n) auto

lemma init_ex: "init sys_ex 2 5 1 [1] 1 ''d'' 0 0 0 1 0 = Inr (env_ex\<lparr>state := None\<rparr>)"
  by (simp add: init_def sys_ex_def env_ex_def lib_ex_def State_fields_of_def c_array_def
      c_array2_def nvec_of_def mk_space_def list_all_replicate numeral_2_eq_2)


lemma keeps_layout_ex: "keeps_layout lib_ex"
  by (simp add: keeps_layout_def lib_ex_def)

lemma zero_ok:
  "fits env_ex (State_new (State_fields env_ex))"
  "counts_ok env_ex (State_new (State_fields env_ex))"
  by (simp_all add: fits_def counts_ok_def env_ex_def State_new_def)


lemma range_py_ex: "range_py 0 1 = [0]" "range_py 0 2 = [0, 1]"
  by (simp_all add: range_py_def upto.simps)

lemma reset_ex:
  "reset (env_ex\<lparr>state := None\<rparr>)
   = [(Inr (env_ex\<lparr>state := Some (padded env_ex (State_new (State_fields env_ex)))\<rparr>,
            views (State_new (State_fields env_ex))), 1)]"
proof -
  let ?e0 = "env_ex\<lparr>state := None\<rparr>" and ?z = "State_new (State_fields env_ex)"
  have sp: "map_of (observation_space ?e0) ''assignment'' = Some (Discrete 1)"
    by (simp add: env_ex_def)
  have cpa: "code_per_assignment ?e0 = [1]" by (simp add: env_ex_def)
  have codes: "\<forall>a. 0 \<le> a \<and> a < 1 \<longrightarrow> 0 < code_per_assignment ?e0 ! nat a"
    by (simp add: cpa)
  have g: "get_state (?e0\<lparr>engine := (), state := Some ?z\<rparr>)
           = Inr (?e0\<lparr>engine := (), state := Some ?z\<rparr>
                    \<lparr>state := Some (padded (?e0\<lparr>engine := (), state := Some ?z\<rparr>) ?z)\<rparr>,
                  views ?z)"
    by (rule get_state_padded) (simp_all add: zero_ok)
  have l: "init_assignment (astclib ?e0) (engine ?e0) (State_new (State_fields ?e0))
             (assignment_dir ?e0) (c_int 0) (c_int 0) (c_int (perturbation ?e0)) = ((), ?z)"
    by (simp add: env_ex_def lib_ex_def)
  have "reset ?e0 = [(get_state (?e0\<lparr>engine := (), state := Some ?z\<rparr>), 1)]"
    using reset_draws [OF sp _ _ codes] l by (simp add: cpa range_py_ex)
  with g show ?thesis by simp
qed

section \<open>The protocol\<close>

text \<open>
  In the statements about the constructor its arguments are written \<open>N\<close>
  (\<open>max_num_nodes\<close>), \<open>nd\<close> (\<open>num_node_descriptor\<close>), \<open>na\<close>
  (\<open>num_assignments\<close>), \<open>cpa\<close> (\<open>code_per_assignment\<close>), \<open>nact\<close>
  (\<open>num_actions\<close>), \<open>dir\<close> (\<open>assignment_dir\<close>), \<open>p\<close> (\<open>perturbation\<close>),
  \<open>nt\<close> (\<open>max_num_tests\<close>), \<open>mtl\<close> (\<open>max_tree_length\<close>), \<open>V\<close>
  (\<open>max_num_vars\<close>) and \<open>seed\<close>.
\<close>

text \<open>
  Claim C5. In a Ready environment (the record is there), for every action, when the
  engine's check returns 0 or 1: whatever \<^verbatim>\<open>step\<close> returns is a tuple of an
  observation, the reward, \<open>done\<close> and the empty dictionary, in which the reward is
  what the check returned, it is 0 or 1, and \<open>done\<close> holds exactly when the reward is
  1; and \<^verbatim>\<open>step\<close> does return when the record the engine leaves behind has the
  environment's layout and counts within the capacities.
\<close>

theorem step_returns:
  assumes ready: "state self = Some s"
    and act: "take_action (astclib self) (engine self) s (c_int action) = (e1, s1)"
    and chk: "check_ast (astclib self) e1 s1 = (e2, s2, r)"
    and bin: "r = 0 \<or> r = 1"
  shows "(\<forall>self' ob reward done info.
            step self action = Inr (self', (ob, reward, done, info)) \<longrightarrow>
            info = Map.empty \<and> reward = r \<and> (reward = 0 \<or> reward = 1) \<and>
            done = (reward = 1)) \<and>
         (fits self s2 \<and> counts_ok self s2 \<longrightarrow>
            (\<exists>self' ob reward done.
               step self action = Inr (self', (ob, reward, done, Map.empty)) \<and>
               reward = r \<and> (reward = 0 \<or> reward = 1) \<and> done = (reward = 1)))"
proof -
  have always: "\<forall>self' ob reward done info.
            step self action = Inr (self', (ob, reward, done, info)) \<longrightarrow>
            info = Map.empty \<and> reward = r \<and> (reward = 0 \<or> reward = 1) \<and>
            done = (reward = 1)"
  proof (intro allI impI)
    fix self' ob reward d info
    assume "step self action = Inr (self', (ob, reward, d, info))"
    then have "info = Map.empty \<and> reward = r \<and> d = (reward = 1)"
      using ready act chk by (auto simp: step_def and_then_eq_Inr split: if_splits)
    with bin show "info = Map.empty \<and> reward = r \<and> (reward = 0 \<or> reward = 1) \<and>
            d = (reward = 1)" by simp
  qed
  have returns: "fits self s2 \<and> counts_ok self s2 \<longrightarrow>
            (\<exists>self' ob reward done.
               step self action = Inr (self', (ob, reward, done, Map.empty)) \<and>
               reward = r \<and> (reward = 0 \<or> reward = 1) \<and> done = (reward = 1))"
  proof (rule impI)
    assume "fits self s2 \<and> counts_ok self s2"
    then have "step self action
               = Inr (self\<lparr>engine := e2, state := Some (padded self s2)\<rparr>,
                      (views s2, r, r = 1, Map.empty))"
      using step_result [OF ready act chk] by simp
    with bin show "\<exists>self' ob reward done.
               step self action = Inr (self', (ob, reward, done, Map.empty)) \<and>
               reward = r \<and> (reward = 0 \<or> reward = 1) \<and> done = (reward = 1)"
      by blast
  qed
  from always returns show ?thesis by (rule conjI)
qed

text \<open>
  The example environment, whose library reports no success: \<^verbatim>\<open>step\<close> returns the
  padded record's observation, the reward 0 and \<open>done\<close> false.
\<close>

theorem step_returns_witness:
  "state env_ex = Some s_ex \<and> fits env_ex s_ex \<and> counts_ok env_ex s_ex \<and>
   take_action (astclib env_ex) (engine env_ex) s_ex (c_int 3) = ((), s_ex) \<and>
   check_ast (astclib env_ex) () s_ex = ((), s_ex, 0) \<and>
   step env_ex 3 = Inr (env_ex\<lparr>state := Some s_pad\<rparr>, (views s_ex, 0, False, Map.empty)) \<and>
   (\<exists>self' ob reward done.
      step env_ex 3 = Inr (self', (ob, reward, done, Map.empty)) \<and>
      reward = 0 \<and> (reward = 0 \<or> reward = 1) \<and> done = (reward = 1))"
proof -
  have h: "state env_ex = Some s_ex" "fits env_ex s_ex" "counts_ok env_ex s_ex"
    by (rule ex_ok)+
  have a: "take_action (astclib env_ex) (engine env_ex) s_ex (c_int 3) = ((), s_ex)"
    "check_ast (astclib env_ex) () s_ex = ((), s_ex, 0)"
    by (simp_all add: env_ex_def lib_ex_def)
  have b: "(0::int) = 0 \<or> (0::int) = 1" by simp
  note t = step_returns [OF h(1) a b]
  from t [THEN conjunct2] h(2,3) obtain self' ob reward d where
    r: "step env_ex 3 = Inr (self', (ob, reward, d, Map.empty))"
       "reward = 0" "d = (reward = 1)" by blast
  have e: "step env_ex 3 = Inr (env_ex\<lparr>state := Some s_pad\<rparr>, (views s_ex, 0, False, Map.empty))"
    using step_result [OF h(1) a h(2,3)] by (simp add: padded_ex)
  from r e h a show ?thesis by blast
qed



text \<open>
  Claim C6. For an environment the constructor returned, whose library does not resize
  the arrays of the record: after a \<^verbatim>\<open>reset\<close> and after every \<^verbatim>\<open>step\<close> or
  \<^verbatim>\<open>reset\<close> that follows, whatever the counts of the record are, the
  \<open>permitted_actions\<close> array of the observation returned has exactly
  \<open>num_actions + 2 * max_num_vars\<close> entries.
\<close>

theorem permitted_actions_length:
  assumes built: "init sys N nd na cpa nact dir p nt mtl V seed = Inr e0"
    and k: "keeps_layout (astclib e0)"
    and ep: "episode e0 e ob"
  shows "int (rows (permitted_actions_o ob)) = nact + 2 * V \<and>
         (\<exists>s. state e = Some s \<and>
            int (length (elems s (permitted_actions_o ob))) = nact + 2 * V)"
proof -
  from episode_layout [OF k ep] obtain eng s s' where
    e: "e = e0\<lparr>engine := eng, state := Some s'\<rparr>" and ob: "ob = views s"
    and sl: "same_layout (State_new (State_fields e0)) s" "same_layout s s'" by blast
  have fs: "State_fields_of N nt nact V mtl = Inr (State_fields e0)"
    by (rule init_Inr(1) [OF built])
  have n: "permitted_actions_n (State_fields e0) = nat (nact + V * 2)" "0 \<le> nact + V * 2"
    by (rule State_fields_of_Inr [OF fs])+
  have l: "length (permitted_actions s) = nat (nact + V * 2)"
    "length (permitted_actions s') = nat (nact + V * 2)"
    using sl n(1) by (simp_all add: same_layout_def State_new_def)
  have "state e = Some s'" using e by simp
  moreover have "int (rows (permitted_actions_o ob)) = nact + 2 * V"
    using ob l n(2) by (simp add: views_def)
  moreover have "int (length (elems s' (permitted_actions_o ob))) = nact + 2 * V"
    using ob l n(2) by (simp add: views_def elems_def)
  ultimately show ?thesis by blast
qed

text \<open>
  The example environment: a \<^verbatim>\<open>reset\<close>, then a \<^verbatim>\<open>step\<close>; both observations have
  three permitted-action entries.
\<close>

theorem permitted_actions_length_witness:
  "init sys_ex 2 5 1 [1] 1 ''d'' 0 0 0 1 0 = Inr (env_ex\<lparr>state := None\<rparr>) \<and>
   keeps_layout (astclib (env_ex\<lparr>state := None\<rparr>)) \<and>
   (\<exists>e ob e' ob' r d info.
      (Inr (e, ob), 1) \<in> set (reset (env_ex\<lparr>state := None\<rparr>)) \<and>
      step e 0 = Inr (e', (ob', r, d, info)) \<and>
      episode (env_ex\<lparr>state := None\<rparr>) e ob \<and>
      episode (env_ex\<lparr>state := None\<rparr>) e' ob' \<and>
      int (rows (permitted_actions_o ob)) = 1 + 2 * 1 \<and>
      int (rows (permitted_actions_o ob')) = 1 + 2 * 1 \<and>
      (\<exists>s. state e' = Some s \<and> int (length (elems s (permitted_actions_o ob'))) = 1 + 2 * 1))"
proof -
  let ?e0 = "env_ex\<lparr>state := None\<rparr>" and ?z = "State_new (State_fields env_ex)"
  let ?e1 = "env_ex\<lparr>state := Some (padded env_ex ?z)\<rparr>"
  have k: "keeps_layout (astclib ?e0)" using keeps_layout_ex by (simp add: env_ex_def)
  have r: "(Inr (?e1, views ?z), 1) \<in> set (reset ?e0)" by (simp add: reset_ex)
  have f1: "fits ?e1 (padded env_ex ?z)" "counts_ok ?e1 (padded env_ex ?z)"
    using fits_padded [OF zero_ok(1), of None] counts_ok_padded [OF zero_ok(2), of None]
    by simp_all
  have st: "step ?e1 0 = Inr (?e1\<lparr>engine := (), state := Some (padded ?e1 (padded env_ex ?z))\<rparr>,
                               (views (padded env_ex ?z), 0, (0::int) = 1, Map.empty))"
    by (rule step_result [OF _ _ _ f1]) (simp_all add: env_ex_def lib_ex_def)
  have ep1: "episode ?e0 ?e1 (views ?z)" by (rule first_reset [OF r])
  have ep2: "episode ?e0 (?e1\<lparr>engine := (), state := Some (padded ?e1 (padded env_ex ?z))\<rparr>)
               (views (padded env_ex ?z))"
    by (rule next_step [OF ep1 st])
  from permitted_actions_length [OF init_ex k ep1] permitted_actions_length [OF init_ex k ep2]
    init_ex k r st ep1 ep2
  show ?thesis by blast
qed

text \<open>
  Claim C4 says that the constructor refuses a capacity that is not positive and
  \<open>max_num_vars > max_num_nodes\<close>. It does not: on a machine where the library loads
  and gym makes its strictest assertions, it builds the environment for
  \<open>max_num_tests = 0\<close>, \<open>max_tree_length = 0\<close> and \<open>max_num_vars = 3\<close> with
  \<open>max_num_nodes = 2\<close>, and it builds one for \<open>num_node_descriptor = 0\<close> and
  \<open>num_actions = 0\<close>.
\<close>

theorem init_accepts_unvalidated:
  "init sys_ex 2 5 1 [1] 1 ''d'' 0 0 0 3 0 =
     Inr (env_ex\<lparr>State_fields :=
                   \<lparr>edges_n = 18, tests_n = 0, nodes_n = 2, starter_n = 2,
                    permitted_actions_n = 7, vars_in_scope_n = 3, args_in_scope_n = 6,
                    zast_n = 0\<rparr>,
                 max_num_vars := 3, action_space := Discrete 4,
                 observation_space :=
                   [(''nodes'', MultiDiscrete [9, 9]), (''edges'', MultiDiscrete (replicate 18 3)),
                    (''permitted_actions'', MultiBinary 7), (''starter'', MultiDiscrete [9, 9]),
                    (''cursor_position'', Discrete 2), (''vars_in_scope'', MultiDiscrete [3, 3, 3]),
                    (''args_in_scope'', MultiDiscrete [3, 3, 3, 3, 3, 3]),
                    (''assignment'', Discrete 1)],
                 state := None\<rparr>) \<and>
   \<not> raised (init sys_ex 2 0 1 [1] 0 ''d'' 0 1 1 1 0)"
  by (simp add: init_def sys_ex_def env_ex_def lib_ex_def State_fields_of_def c_array_def
      c_array2_def nvec_of_def mk_space_def list_all_replicate raised_def eval_nat_numeral)

text \<open>
  Claim C4 as amended. The constructor has no check of its own; it fails where a call it
  makes fails. For every combination of arguments in which \<open>max_num_nodes\<close>,
  \<open>max_num_tests\<close>, \<open>max_num_vars\<close> or \<open>max_tree_length\<close> is negative, or
  \<open>num_actions + 2 * max_num_vars\<close> is, it raises instead of constructing the
  environment: \<^verbatim>\<open>ValueError\<close>, or \<^verbatim>\<open>OverflowError\<close> for a length that does not fit
  an index, from the array type of negative length. Where gym refuses a
  \<^verbatim>\<open>Discrete\<close> space of size 0 it raises for \<open>max_num_nodes = 0\<close> too. It does not
  refuse a \<open>max_num_tests\<close> or \<open>max_tree_length\<close> of 0, a \<open>num_actions\<close> or
  \<open>num_node_descriptor\<close> that is not positive, or \<open>max_num_vars > max_num_nodes\<close>.
\<close>

theorem init_checks:
  "(N < 0 \<or> nt < 0 \<or> V < 0 \<or> mtl < 0 \<or> nact + V * 2 < 0 \<longrightarrow>
      init sys N nd na cpa nact dir p nt mtl V seed = Inl ValueError \<or>
      init sys N nd na cpa nact dir p nt mtl V seed = Inl OverflowError) \<and>
   (N = 0 \<and> \<not> gym_accepts sys (Discrete 0) \<longrightarrow>
      raised (init sys N nd na cpa nact dir p nt mtl V seed))"
proof (rule conjI)
  show "N < 0 \<or> nt < 0 \<or> V < 0 \<or> mtl < 0 \<or> nact + V * 2 < 0 \<longrightarrow>
      init sys N nd na cpa nact dir p nt mtl V seed = Inl ValueError \<or>
      init sys N nd na cpa nact dir p nt mtl V seed = Inl OverflowError"
  proof (rule impI)
    assume neg: "N < 0 \<or> nt < 0 \<or> V < 0 \<or> mtl < 0 \<or> nact + V * 2 < 0"
    obtain e where e: "State_fields_of N nt nact V mtl = Inl e"
    proof (cases "State_fields_of N nt nact V mtl")
      case (Inl e)
      then show ?thesis by (rule that)
    next
      case (Inr fs)
      from State_fields_of_Inr(1-5) [OF Inr] neg show ?thesis by arith
    qed
    have "init sys N nd na cpa nact dir p nt mtl V seed = Inl e"
      by (rule init_fields_Inl [OF e])
    with State_fields_of_Inl [OF e]
    show "init sys N nd na cpa nact dir p nt mtl V seed = Inl ValueError \<or>
      init sys N nd na cpa nact dir p nt mtl V seed = Inl OverflowError"
      by auto
  qed
next
  show "N = 0 \<and> \<not> gym_accepts sys (Discrete 0) \<longrightarrow>
      raised (init sys N nd na cpa nact dir p nt mtl V seed)"
  proof (rule impI)
    assume a: "N = 0 \<and> \<not> gym_accepts sys (Discrete 0)"
    show "raised (init sys N nd na cpa nact dir p nt mtl V seed)"
    proof (cases "init sys N nd na cpa nact dir p nt mtl V seed")
      case (Inl e)
      then show ?thesis by (simp add: raised_def)
    next
      case (Inr e)
      from init_Inr(12) [OF Inr] a show ?thesis by simp
    qed
  qed
qed

text \<open>
  \<open>max_num_nodes = -1\<close> raises \<^verbatim>\<open>ValueError\<close>, \<open>max_num_nodes = -2^70\<close> raises
  \<^verbatim>\<open>OverflowError\<close>, and \<open>max_num_nodes = 0\<close> is refused under the strict gym.
\<close>

theorem init_checks_witness:
  "(- 1 :: int) < 0 \<and> init sys_ex (- 1) 5 1 [1] 1 ''d'' 0 0 0 1 0 = Inl ValueError \<and>
   (- (2 ^ 70) :: int) < 0 \<and>
   init sys_ex (- (2 ^ 70)) 5 1 [1] 1 ''d'' 0 0 0 1 0 = Inl OverflowError \<and>
   \<not> gym_accepts sys_ex (Discrete 0) \<and>
   raised (init sys_ex 0 5 1 [1] 1 ''d'' 0 10 10000 1 0)"
proof -
  have g: "\<not> gym_accepts sys_ex (Discrete 0)" by (simp add: sys_ex_def)
  have "init sys_ex (- 1) 5 1 [1] 1 ''d'' 0 0 0 1 0 = Inl ValueError \<or>
        init sys_ex (- 1) 5 1 [1] 1 ''d'' 0 0 0 1 0 = Inl OverflowError"
    using init_checks [of "- 1" 0 1 0 1 sys_ex 5 1 "[1]" "''d''" 0 0] by simp
  moreover have "State_fields_of (- 1) 0 1 1 0 = Inl ValueError"
    by (simp add: State_fields_of_def c_array2_def c_array_def)
  then have "init sys_ex (- 1) 5 1 [1] 1 ''d'' 0 0 0 1 0 \<noteq> Inl OverflowError"
    by (simp add: init_def)
  ultimately have a: "init sys_ex (- 1) 5 1 [1] 1 ''d'' 0 0 0 1 0 = Inl ValueError"
    by simp
  have "init sys_ex (- (2 ^ 70)) 5 1 [1] 1 ''d'' 0 0 0 1 0 = Inl ValueError \<or>
        init sys_ex (- (2 ^ 70)) 5 1 [1] 1 ''d'' 0 0 0 1 0 = Inl OverflowError"
    using init_checks [of "- (2 ^ 70)" 0 1 0 1 sys_ex 5 1 "[1]" "''d''" 0 0] by simp
  moreover have "State_fields_of (- (2 ^ 70)) 0 1 1 0 = Inl OverflowError"
    by (simp add: State_fields_of_def c_array2_def c_array_def)
  then have "init sys_ex (- (2 ^ 70)) 5 1 [1] 1 ''d'' 0 0 0 1 0 \<noteq> Inl ValueError"
    by (simp add: init_def)
  ultimately have b: "init sys_ex (- (2 ^ 70)) 5 1 [1] 1 ''d'' 0 0 0 1 0 = Inl OverflowError"
    by simp
  have c: "raised (init sys_ex 0 5 1 [1] 1 ''d'' 0 10 10000 1 0)"
    using init_checks [of 0 10 1 10000 1 sys_ex 5 1 "[1]" "''d''" 0 0] g by simp
  from a b c g show ?thesis by simp
qed

end
